theory Spec2Isabelle
  imports Main "HOL-Library.List_Lexorder" "HOL-Library.Char_ord"
begin

section \<open>Model of \<^verbatim>\<open>himawari_wallpaper.py\<close>\<close>

subsection \<open>Decimal rendering and file names\<close>

text \<open>
  Python renders an integer inside an f-string in decimal; \<open>show_nat\<close> is that
  rendering for a non-negative integer.
\<close>

definition digit_char :: "nat \<Rightarrow> char" where
  "digit_char d = ''0123456789'' ! d"

fun show_nat :: "nat \<Rightarrow> string" where
  "show_nat n = (if n < 10 then [digit_char n] else show_nat (n div 10) @ [digit_char (n mod 10)])"

declare show_nat.simps [simp del]

text \<open>
  \<^verbatim>\<open>Path.stem\<close>: the final path component without its last suffix. With
  \<open>i\<close> the index of the last dot, the suffix is cut only when \<open>0 < i < len(name) - 1\<close>.
\<close>

definition stem :: "string \<Rightarrow> string" where
  "stem name =
     (case dropWhile (\<lambda>c. c \<noteq> CHR ''.'') (rev name) of
        [] \<Rightarrow> name
      | d # p \<Rightarrow> if p \<noteq> [] \<and> takeWhile (\<lambda>c. c \<noteq> CHR ''.'') (rev name) \<noteq> [] then rev p else name)"

text \<open>\<^verbatim>\<open>str.split(sep)\<close> for a one-character separator.\<close>

fun split_on :: "char \<Rightarrow> string \<Rightarrow> string list" where
  "split_on sep [] = [[]]"
| "split_on sep (c # cs) =
     (if c = sep then [] # split_on sep cs
      else (case split_on sep cs of [] \<Rightarrow> [[c]] | p # ps \<Rightarrow> (c # p) # ps))"

subsection \<open>The retention store\<close>

text \<open>
  The output directory is the list of its file names, in the order in which the
  operating system enumerates them. \<^verbatim>\<open>list_png\<close> globs \<^verbatim>\<open>*.png\<close>, which keeps
  the names that end in \<^verbatim>\<open>.png\<close>.
\<close>

definition is_png :: "string \<Rightarrow> bool" where
  "is_png name = (take 4 (rev name) = rev ''.png'')"

definition list_png :: "string list \<Rightarrow> string list" where
  "list_png dir = filter is_png dir"

text \<open>
  \<^verbatim>\<open>get_timestamp\<close>: the third underscore-separated token of the stem, or
  \<^verbatim>\<open>"0"\<close> when the stem has fewer than three tokens.
\<close>

definition get_timestamp :: "string \<Rightarrow> string" where
  "get_timestamp file_path =
     (let name = stem file_path; parts = split_on CHR ''_'' name
      in if 3 \<le> length parts then parts ! 2 else ''0'')"

text \<open>
  \<^verbatim>\<open>clean_old_images\<close>: nothing happens when the listing has at most
  \<^verbatim>\<open>max_images\<close> entries; otherwise the listing is sorted by \<^verbatim>\<open>get_timestamp\<close>
  (Python's sort is stable and compares the keys as strings, as \<open>sort_key\<close> does on
  \<open>string\<close>), and the slice \<^verbatim>\<open>images[:len(images)-max_images]\<close> is unlinked file by
  file.
\<close>

definition unlink :: "string \<Rightarrow> string list \<Rightarrow> string list" where
  "unlink f dir = removeAll f dir"

definition clean_old_images :: "string list \<Rightarrow> int \<Rightarrow> string list" where
  "clean_old_images dir max_images =
     (let images = list_png dir in
      if int (length images) \<le> max_images then dir
      else
        let sorted_images = sort_key get_timestamp images;
            doomed = take (nat (int (length images) - max_images)) sorted_images
        in fold unlink doomed dir)"

text \<open>The per-tile file \<^verbatim>\<open>tile_{row}_{col}.png\<close> written by \<^verbatim>\<open>download_tiles\<close>.\<close>

definition tile_name :: "nat \<Rightarrow> nat \<Rightarrow> string" where
  "tile_name row col = ''tile_'' @ show_nat row @ ''_'' @ show_nat col @ ''.png''"


definition mixed_dir :: "string list" where
  "mixed_dir =
     [''tile_0_0.png'', ''readme.txt'', ''4d_550_2024__01__15__122000.png'',
      ''4d_550_2024__01__15__123000.png'']"

text \<open>\<^verbatim>\<open>str(i)\<close> for any integer, and zero padding as \<^verbatim>\<open>strftime\<close> does it.\<close>

definition show_int :: "int \<Rightarrow> string" where
  "show_int i = (if i < 0 then CHR ''-'' # show_nat (nat (- i)) else show_nat (nat i))"

definition pad0 :: "nat \<Rightarrow> string \<Rightarrow> string" where
  "pad0 k s = replicate (k - length s) CHR ''0'' @ s"

subsection \<open>Timestamps and artifact names\<close>

text \<open>A naive \<^verbatim>\<open>datetime\<close> with the fields Python stores.\<close>

record datetime =
  year :: int
  month :: int
  day :: int
  hour :: int
  minute :: int
  second :: int
  microsecond :: int

text \<open>
  \<^verbatim>\<open>strftime("%Y/%m/%d/%H%M%S")\<close>, with the year padded to four digits,
  \<^verbatim>\<open>convert_time\<close>, which replaces every \<^verbatim>\<open>/\<close> by \<^verbatim>\<open>__\<close>, and the file name
  \<^verbatim>\<open>f"{ND}d_{TILE_SIZE}_{convert_time(time_str)}.png"\<close> built by \<^verbatim>\<open>save_wallpaper\<close>.
\<close>

definition strftime_path :: "datetime \<Rightarrow> string" where
  "strftime_path dt =
     pad0 4 (show_int (year dt)) @ ''/'' @ pad0 2 (show_int (month dt)) @ ''/'' @
     pad0 2 (show_int (day dt)) @ ''/'' @ pad0 2 (show_int (hour dt)) @
     pad0 2 (show_int (minute dt)) @ pad0 2 (show_int (second dt))"

definition convert_time :: "string \<Rightarrow> string" where
  "convert_time time_str = concat (map (\<lambda>c. if c = CHR ''/'' then ''__'' else [c]) time_str)"

definition artifact_name :: "int \<Rightarrow> int \<Rightarrow> datetime \<Rightarrow> string" where
  "artifact_name nd tile_size dt =
     show_int nd @ ''d_'' @ show_int tile_size @ ''_'' @ convert_time (strftime_path dt) @ ''.png''"

text \<open>Auxiliary: the decimal digits.\<close>

definition is_digit :: "char \<Rightarrow> bool" where
  "is_digit c = (c \<in> set ''0123456789'')"

text \<open>Two snapshots of the same day, ten minutes apart.\<close>

definition snap_1220 :: datetime where
  "snap_1220 = \<lparr>year = 2024, month = 1, day = 15, hour = 12, minute = 20, second = 0,
     microsecond = 0\<rparr>"

definition snap_1230 :: datetime where
  "snap_1230 = \<lparr>year = 2024, month = 1, day = 15, hour = 12, minute = 30, second = 0,
     microsecond = 0\<rparr>"

subsection \<open>Errors\<close>

text \<open>
  The exceptions the program can meet. \<open>IOError\<close> stands for whatever a request, a file
  write or the image decoder raises; \<open>RuntimeError\<close> carries its message and its
  \<^verbatim>\<open>__cause__\<close>.
\<close>

datatype exn =
    ZeroDivisionError
  | ValueError
  | OverflowError
  | IndexError
  | IOError string
  | RuntimeError string "exn option"

subsection \<open>Time alignment\<close>

text \<open>
  \<^verbatim>\<open>now - timedelta(minutes=DELAY_MINUTES)\<close> as Python's \<^verbatim>\<open>datetime\<close> computes it: the
  date becomes its proleptic Gregorian ordinal, the time of day is shifted in seconds,
  the carry goes to the ordinal, and the ordinal is turned back into a date; a result
  outside years 1 to 9999 raises \<^verbatim>\<open>OverflowError\<close>.
\<close>

definition is_leap :: "int \<Rightarrow> bool" where
  "is_leap y = (y mod 4 = 0 \<and> (y mod 100 \<noteq> 0 \<or> y mod 400 = 0))"

definition days_before_year :: "int \<Rightarrow> int" where
  "days_before_year y = (let p = y - 1 in p * 365 + p div 4 - p div 100 + p div 400)"

definition DAYS_IN_MONTH :: "int list" where
  "DAYS_IN_MONTH = [31, 28, 31, 30, 31, 30, 31, 31, 30, 31, 30, 31]"

definition DAYS_BEFORE_MONTH :: "int list" where
  "DAYS_BEFORE_MONTH = [0, 31, 59, 90, 120, 151, 181, 212, 243, 273, 304, 334]"

definition days_before_month :: "int \<Rightarrow> int \<Rightarrow> int" where
  "days_before_month y m =
     DAYS_BEFORE_MONTH ! nat (m - 1) + (if 2 < m \<and> is_leap y then 1 else 0)"

definition ymd2ord :: "int \<Rightarrow> int \<Rightarrow> int \<Rightarrow> int" where
  "ymd2ord y m d = days_before_year y + days_before_month y m + d"

definition ord2ymd :: "int \<Rightarrow> int \<times> int \<times> int" where
  "ord2ymd n =
     (let n0 = n - 1;
          n400 = n0 div 146097; r400 = n0 mod 146097;
          n100 = r400 div 36524; r100 = r400 mod 36524;
          n4 = r100 div 1461; r4 = r100 mod 1461;
          n1 = r4 div 365; r1 = r4 mod 365;
          y = n400 * 400 + 1 + n100 * 100 + n4 * 4 + n1
      in if n1 = 4 \<or> n100 = 4 then (y - 1, 12, 31)
         else
           let leapyear = (n1 = 3 \<and> (n4 \<noteq> 24 \<or> n100 = 3));
               m = (r1 + 50) div 32;
               preceding = DAYS_BEFORE_MONTH ! nat (m - 1) + (if 2 < m \<and> leapyear then 1 else 0)
           in if r1 < preceding
              then (y, m - 1,
                    r1 - (preceding - (DAYS_IN_MONTH ! nat (m - 2)
                                       + (if m - 1 = 2 \<and> leapyear then 1 else 0))) + 1)
              else (y, m, r1 - preceding + 1))"

definition MAXORDINAL :: int where
  "MAXORDINAL = 3652059"

definition sub_minutes :: "datetime \<Rightarrow> int \<Rightarrow> exn + datetime" where
  "sub_minutes dt lag =
     (let secs = hour dt * 3600 + minute dt * 60 + second dt - lag * 60;
          days = ymd2ord (year dt) (month dt) (day dt) + secs div 86400;
          s = secs mod 86400
      in if 0 < days \<and> days \<le> MAXORDINAL
         then (case ord2ymd days of (y, m, d) \<Rightarrow>
                 Inr \<lparr>year = y, month = m, day = d, hour = s div 3600,
                      minute = (s mod 3600) div 60, second = (s mod 3600) mod 60,
                      microsecond = microsecond dt\<rparr>)
         else Inl OverflowError)"

text \<open>
  \<^verbatim>\<open>get_aligned_time\<close>, with the clock reading and the two configuration values as
  parameters. \<^verbatim>\<open>//\<close> is floor division and raises on a zero divisor;
  \<^verbatim>\<open>replace(minute=...)\<close> raises \<^verbatim>\<open>ValueError\<close> for a minute outside 0..59.
\<close>

definition get_aligned_time :: "datetime \<Rightarrow> int \<Rightarrow> int \<Rightarrow> exn + datetime" where
  "get_aligned_time now DELAY_MINUTES UPDATE_INTERVAL_MINUTES =
     (case sub_minutes now DELAY_MINUTES of
        Inl e \<Rightarrow> Inl e
      | Inr target \<Rightarrow>
          if UPDATE_INTERVAL_MINUTES = 0 then Inl ZeroDivisionError
          else
            let m = (minute target div UPDATE_INTERVAL_MINUTES) * UPDATE_INTERVAL_MINUTES
            in if 0 \<le> m \<and> m \<le> 59
               then Inr (target\<lparr>minute := m, second := 0, microsecond := 0\<rparr>)
               else Inl ValueError)"

text \<open>A clock reading five and a half minutes into a year.\<close>

definition new_year_0005 :: datetime where
  "new_year_0005 = \<lparr>year = 2024, month = 1, day = 1, hour = 0, minute = 5, second = 30,
     microsecond = 123456\<rparr>"



subsection \<open>Images and stitching\<close>

text \<open>
  A raster image: its size and the colour of each pixel, \<open>im_px im x y\<close> for column
  \<open>x\<close> and row \<open>y\<close>. Only the pixels inside the size matter.
\<close>

type_synonym rgb = "nat \<times> nat \<times> nat"

record image =
  im_w :: nat
  im_h :: nat
  im_px :: "nat \<Rightarrow> nat \<Rightarrow> rgb"

definition black :: rgb where
  "black = (0, 0, 0)"

text \<open>
  \<^verbatim>\<open>Image.new("RGB", size, color)\<close>: a solid image; a negative width or height raises
  \<^verbatim>\<open>ValueError\<close>.
\<close>

definition Image_new :: "int \<times> int \<Rightarrow> rgb \<Rightarrow> exn + image" where
  "Image_new sz color =
     (case sz of (w, h) \<Rightarrow>
        if w < 0 \<or> h < 0 then Inl ValueError
        else Inr \<lparr>im_w = nat w, im_h = nat h, im_px = (\<lambda>x y. color)\<rparr>)"

text \<open>
  \<^verbatim>\<open>bg.paste(im, (ox, oy))\<close>: every pixel of \<open>bg\<close> that lies under \<open>im\<close> placed with
  its upper left corner at \<open>(ox, oy)\<close> takes the colour of \<open>im\<close>; the part of \<open>im\<close>
  outside \<open>bg\<close> is dropped, and the size of \<open>bg\<close> stays.
\<close>

definition paste :: "image \<Rightarrow> image \<Rightarrow> int \<times> int \<Rightarrow> image" where
  "paste bg im box =
     (case box of (ox, oy) \<Rightarrow>
        bg\<lparr>im_px := (\<lambda>x y.
              let sx = int x - ox; sy = int y - oy
              in if 0 \<le> sx \<and> sx < int (im_w im) \<and> 0 \<le> sy \<and> sy < int (im_h im)
                 then im_px im (nat sx) (nat sy)
                 else im_px bg x y)\<rparr>)"

text \<open>
  The two loops of \<^verbatim>\<open>stitch_tiles\<close>: \<open>paste_row\<close> is the inner loop over the columns
  of one row, \<open>paste_rows\<close> the outer loop over the rows. \<^verbatim>\<open>tiles[row][col]\<close> raises
  \<^verbatim>\<open>IndexError\<close> outside the lists.
\<close>

fun paste_row :: "image list list \<Rightarrow> nat \<Rightarrow> nat \<Rightarrow> nat \<Rightarrow> nat list \<Rightarrow> image \<Rightarrow> exn + image" where
  "paste_row tiles tile_w tile_h row [] big_img = Inr big_img"
| "paste_row tiles tile_w tile_h row (col # cols) big_img =
     (if row < length tiles \<and> col < length (tiles ! row)
      then paste_row tiles tile_w tile_h row cols
             (paste big_img (tiles ! row ! col) (int (col * tile_w), int (row * tile_h)))
      else Inl IndexError)"

fun paste_rows :: "image list list \<Rightarrow> nat \<Rightarrow> nat \<Rightarrow> nat list \<Rightarrow> nat list \<Rightarrow> image \<Rightarrow> exn + image" where
  "paste_rows tiles tile_w tile_h [] cols big_img = Inr big_img"
| "paste_rows tiles tile_w tile_h (row # rows) cols big_img =
     (case paste_row tiles tile_w tile_h row cols big_img of
        Inl e \<Rightarrow> Inl e
      | Inr big_img' \<Rightarrow> paste_rows tiles tile_w tile_h rows cols big_img')"

text \<open>
  \<^verbatim>\<open>stitch_tiles\<close>: the tile size is read from \<^verbatim>\<open>tiles[0][0]\<close>, the composite is a
  new image of \<open>ND\<close> times that size, and both loops run over \<^verbatim>\<open>range(ND)\<close>.
\<close>

definition stitch_tiles :: "int \<Rightarrow> image list list \<Rightarrow> exn + image" where
  "stitch_tiles ND tiles =
     (case tiles of
        [] \<Rightarrow> Inl IndexError
      | row0 # _ \<Rightarrow>
         (case row0 of
            [] \<Rightarrow> Inl IndexError
          | tile0 # _ \<Rightarrow>
              let tile_w = im_w tile0; tile_h = im_h tile0 in
              (case Image_new (int tile_w * ND, int tile_h * ND) black of
                 Inl e \<Rightarrow> Inl e
               | Inr big_img \<Rightarrow>
                   paste_rows tiles tile_w tile_h [0..<nat ND] [0..<nat ND] big_img)))"

text \<open>Example images of one colour, and two example grids.\<close>

definition solid :: "nat \<Rightarrow> nat \<Rightarrow> rgb \<Rightarrow> image" where
  "solid w h c = \<lparr>im_w = w, im_h = h, im_px = (\<lambda>x y. c)\<rparr>"

text \<open>
  The same pastes over an explicit list of cells, and the row-major list of the cells of
  an \<open>n \<times> n\<close> grid; used to state the order in which \<^verbatim>\<open>stitch_tiles\<close> visits the cells.
\<close>

fun paste_cells :: "image list list \<Rightarrow> nat \<Rightarrow> nat \<Rightarrow> (nat \<times> nat) list \<Rightarrow> image \<Rightarrow> exn + image" where
  "paste_cells tiles tile_w tile_h [] big_img = Inr big_img"
| "paste_cells tiles tile_w tile_h ((row, col) # cells) big_img =
     (if row < length tiles \<and> col < length (tiles ! row)
      then paste_cells tiles tile_w tile_h cells
             (paste big_img (tiles ! row ! col) (int (col * tile_w), int (row * tile_h)))
      else Inl IndexError)"

definition grid_cells :: "nat \<Rightarrow> (nat \<times> nat) list" where
  "grid_cells n = concat (map (\<lambda>row. map (\<lambda>col. (row, col)) [0..<n]) [0..<n])"

definition red :: rgb where "red = (255, 0, 0)"

definition green :: rgb where "green = (0, 255, 0)"

definition blue :: rgb where "blue = (0, 0, 255)"

definition white :: rgb where "white = (255, 255, 255)"

definition uniform_grid :: "image list list" where
  "uniform_grid = [[solid 2 1 red, solid 2 1 green], [solid 2 1 blue, solid 2 1 white]]"

definition mixed_grid :: "image list list" where
  "mixed_grid = [[solid 2 2 red, solid 1 1 green], [solid 2 2 blue, solid 3 3 white]]"

text \<open>
  Whether the tile of a cell, placed with its upper left corner at
  \<open>(col * w0, row * h0)\<close>, lies over the pixel \<open>(X, Y)\<close>.
\<close>

definition covers :: "image list list \<Rightarrow> nat \<Rightarrow> nat \<Rightarrow> nat \<Rightarrow> nat \<Rightarrow> nat \<times> nat \<Rightarrow> bool" where
  "covers tiles w0 h0 X Y cell =
     (case cell of (row, col) \<Rightarrow>
        col * w0 \<le> X \<and> X < col * w0 + im_w (tiles ! row ! col)
        \<and> row * h0 \<le> Y \<and> Y < row * h0 + im_h (tiles ! row ! col))"

subsection \<open>The sort key and pruning, with failures written out\<close>

text \<open>
  \<^verbatim>\<open>parts[2]\<close> raises \<^verbatim>\<open>IndexError\<close> on a list of fewer than three elements. Here
  \<^verbatim>\<open>get_timestamp\<close> and \<^verbatim>\<open>clean_old_images\<close> are written once more with that failure as
  a value: \<^verbatim>\<open>images.sort(key=get_timestamp)\<close> first computes the key of every image, then
  sorts the images by their keys.
\<close>

definition list_index :: "'a list \<Rightarrow> nat \<Rightarrow> exn + 'a" where
  "list_index xs i = (if i < length xs then Inr (xs ! i) else Inl IndexError)"

definition get_timestamp_checked :: "string \<Rightarrow> exn + string" where
  "get_timestamp_checked file_path =
     (let name = stem file_path; parts = split_on CHR ''_'' name
      in if 3 \<le> length parts
         then list_index parts 2
         else Inr ''0'')"

fun sort_keys :: "string list \<Rightarrow> exn + (string \<times> string) list" where
  "sort_keys [] = Inr []"
| "sort_keys (img # images) =
     (case get_timestamp_checked img of
        Inl e \<Rightarrow> Inl e
      | Inr k \<Rightarrow>
          (case sort_keys images of
             Inl e \<Rightarrow> Inl e
           | Inr ks \<Rightarrow> Inr ((k, img) # ks)))"

definition clean_old_images_checked :: "string list \<Rightarrow> int \<Rightarrow> exn + string list" where
  "clean_old_images_checked dir max_images =
     (let images = list_png dir in
      if int (length images) \<le> max_images then Inr dir
      else
        (case sort_keys images of
           Inl e \<Rightarrow> Inl e
         | Inr ks \<Rightarrow>
             let sorted_images = map snd (sort_key fst ks);
                 doomed = take (nat (int (length images) - max_images)) sorted_images
             in Inr (fold unlink doomed dir)))"

subsection \<open>Numbers of the configuration\<close>

text \<open>
  \<^verbatim>\<open>cover_ratio\<close> is read from \<^verbatim>\<open>config.json\<close>, so it is a Python \<^verbatim>\<open>int\<close> or a Python
  \<^verbatim>\<open>float\<close>. A finite float is \<open>mant * 2 ^ expo\<close>; arithmetic on floats rounds to 53
  significant bits, ties to even, with exponents not below \<open>-1074\<close>.
\<close>

record pyfloat =
  mant :: int
  expo :: int

datatype number = PyInt int | PyFloat pyfloat

text \<open>The number of binary digits of a positive integer, as \<^verbatim>\<open>int.bit_length\<close> gives it.\<close>

function bitlen :: "int \<Rightarrow> nat" where
  "bitlen n = (if n \<le> 0 then 0 else Suc (bitlen (n div 2)))"
  by auto

termination bitlen
  by (relation "measure nat") auto

declare bitlen.simps [simp del]

text \<open>\<open>m / 2 ^ k\<close> rounded to the nearest integer, ties to the even one.\<close>

definition round_half_even :: "int \<Rightarrow> nat \<Rightarrow> int" where
  "round_half_even m k =
     (let q = m div 2 ^ k; r = m mod 2 ^ k
      in if 2 * r < 2 ^ k then q
         else if 2 ^ k < 2 * r then q + 1
         else if even q then q else q + 1)"

text \<open>
  The float nearest to \<open>m * 2 ^ e\<close>; \<open>None\<close> when the rounded value is beyond the largest
  float.
\<close>

definition float_round :: "int \<Rightarrow> int \<Rightarrow> pyfloat option" where
  "float_round m e =
     (let k = max 0 (max (int (bitlen \<bar>m\<bar>) - 53) (- 1074 - e));
          m' = round_half_even m (nat k);
          e' = e + k
      in if 1024 < int (bitlen \<bar>m'\<bar>) + e' then None
         else Some \<lparr>mant = m', expo = e'\<rparr>)"

text \<open>
  \<^verbatim>\<open>i * r\<close> for an \<^verbatim>\<open>int\<close> \<open>i\<close>. With a float \<open>r\<close>, \<open>i\<close> is converted first, which raises
  \<^verbatim>\<open>OverflowError\<close> when it is too large for a float; a product beyond the largest float
  is an infinity, on which the \<^verbatim>\<open>int()\<close> that follows in \<^verbatim>\<open>resize_and_center\<close> raises
  \<^verbatim>\<open>OverflowError\<close> as well, so both are the same failure here.
\<close>

definition mul_int_number :: "int \<Rightarrow> number \<Rightarrow> exn + number" where
  "mul_int_number i r =
     (case r of
        PyInt n \<Rightarrow> Inr (PyInt (i * n))
      | PyFloat x \<Rightarrow>
          (case float_round i 0 of
             None \<Rightarrow> Inl OverflowError
           | Some s \<Rightarrow>
               (case float_round (mant s * mant x) (expo s + expo x) of
                  None \<Rightarrow> Inl OverflowError
                | Some p \<Rightarrow> Inr (PyFloat p))))"

text \<open>\<^verbatim>\<open>int(x)\<close>: a float is truncated towards zero.\<close>

definition py_int :: "number \<Rightarrow> int" where
  "py_int x =
     (case x of
        PyInt n \<Rightarrow> n
      | PyFloat f \<Rightarrow>
          if 0 \<le> expo f then mant f * 2 ^ nat (expo f)
          else if 0 \<le> mant f then mant f div 2 ^ nat (- expo f)
          else - ((- mant f) div 2 ^ nat (- expo f)))"

text \<open>
  The floor of a number, the largest integer not above it; the specification words the
  target size with it.
\<close>

definition floor_number :: "number \<Rightarrow> int" where
  "floor_number x =
     (case x of
        PyInt n \<Rightarrow> n
      | PyFloat f \<Rightarrow>
          if 0 \<le> expo f then mant f * 2 ^ nat (expo f)
          else mant f div 2 ^ nat (- expo f))"

text \<open>The float that the literal \<^verbatim>\<open>0.9\<close> denotes, and the float \<^verbatim>\<open>1.5\<close>.\<close>

definition float_0_9 :: pyfloat where
  "float_0_9 = \<lparr>mant = 8106479329266893, expo = - 53\<rparr>"

definition float_1_5 :: pyfloat where
  "float_1_5 = \<lparr>mant = 3, expo = - 1\<rparr>"

subsection \<open>Composition\<close>

text \<open>
  \<^verbatim>\<open>im.resize(size, resample)\<close>: an image that already has the size is copied; a width
  or height below 1 raises \<^verbatim>\<open>ValueError\<close>; otherwise the result has the size asked for
  and the pixels the resampling filter computes. The filter is a parameter of the model.
\<close>

definition resize ::
  "(image \<Rightarrow> nat \<times> nat \<Rightarrow> nat \<Rightarrow> nat \<Rightarrow> rgb) \<Rightarrow> image \<Rightarrow> int \<times> int \<Rightarrow> exn + image" where
  "resize resample im sz =
     (case sz of (w, h) \<Rightarrow>
        if (int (im_w im), int (im_h im)) = (w, h) then Inr im
        else if w < 1 \<or> h < 1 then Inl ValueError
        else Inr \<lparr>im_w = nat w, im_h = nat h, im_px = resample im (nat w, nat h)\<rparr>)"

text \<open>\<^verbatim>\<open>resize_and_center\<close>, statement by statement.\<close>

definition resize_and_center ::
  "(image \<Rightarrow> nat \<times> nat \<Rightarrow> nat \<Rightarrow> nat \<Rightarrow> rgb) \<Rightarrow> image \<Rightarrow> int \<times> int \<Rightarrow> number \<Rightarrow> exn + image" where
  "resize_and_center LANCZOS big_img screen_size cover_ratio =
     (case screen_size of (W, H) \<Rightarrow>
        let short_edge = min W H in
        (case mul_int_number short_edge cover_ratio of
           Inl e \<Rightarrow> Inl e
         | Inr product \<Rightarrow>
            let target_size = py_int product in
            (case Image_new (W, H) black of
               Inl e \<Rightarrow> Inl e
             | Inr bg \<Rightarrow>
                (case resize LANCZOS big_img (target_size, target_size) of
                   Inl e \<Rightarrow> Inl e
                 | Inr big_resized \<Rightarrow>
                     let offset_x = (W - target_size) div 2;
                         offset_y = (H - target_size) div 2
                     in Inr (paste bg big_resized (offset_x, offset_y))))))"

subsection \<open>Fetching the grid\<close>

text \<open>
  What one \<^verbatim>\<open>try\<close> block of \<^verbatim>\<open>download_tiles\<close> meets at a URL: \<open>Failed e\<close> when
  \<^verbatim>\<open>requests.get\<close> or \<^verbatim>\<open>raise_for_status\<close> raises \<open>e\<close>; \<open>Undecodable e\<close> when the response
  is good and its body is written to the tile file, but \<^verbatim>\<open>Image.open\<close> raises \<open>e\<close> on it;
  \<open>Tile img\<close> when the body is written and opens as \<open>img\<close>.
\<close>

datatype response = Failed exn | Undecodable exn | Tile image

text \<open>
  The world the program acts on: the names in \<^verbatim>\<open>SAVE_DIR\<close>, the URLs requested so far,
  and the paths handed to \<^verbatim>\<open>set_wallpaper\<close> so far.
\<close>

record world =
  files :: "string list"
  requests :: "string list"
  wallpaper :: "string list"

text \<open>The values read from \<^verbatim>\<open>config.json\<close>.\<close>

record config =
  BASE_URL :: "string list"
  DELAY_MINUTES :: int
  UPDATE_INTERVAL_MINUTES :: int
  ND :: int
  TILE_SIZE :: int
  COVER_RATIO :: number
  PIC_SIZE :: "int \<times> int"
  MAX_PIC :: int

text \<open>Writing a file creates its name or keeps it.\<close>

definition write_file :: "string \<Rightarrow> string list \<Rightarrow> string list" where
  "write_file name dir = (if name \<in> set dir then dir else dir @ [name])"

definition tile_url :: "config \<Rightarrow> string \<Rightarrow> string \<Rightarrow> nat \<Rightarrow> nat \<Rightarrow> string" where
  "tile_url cfg time_str base_url row col =
     base_url @ ''/'' @ show_int (ND cfg) @ ''d/'' @ show_int (TILE_SIZE cfg) @ ''/'' @ time_str
       @ ''_'' @ show_nat col @ ''_'' @ show_nat row @ ''.png''"

text \<open>
  The loop over \<^verbatim>\<open>BASE_URL\<close> for one cell. It returns the image at the \<^verbatim>\<open>break\<close>, or
  \<^verbatim>\<open>last_exception\<close> when the list is used up.
\<close>

fun try_urls ::
  "(string \<Rightarrow> response) \<Rightarrow> config \<Rightarrow> string \<Rightarrow> nat \<Rightarrow> nat \<Rightarrow> string list \<Rightarrow> exn option \<Rightarrow> world
     \<Rightarrow> world \<times> (exn option + image)" where
  "try_urls net cfg time_str row col [] last_exception w = (w, Inl last_exception)"
| "try_urls net cfg time_str row col (base_url # rest) last_exception w =
     (let url = tile_url cfg time_str base_url row col;
          w1 = w\<lparr>requests := requests w @ [url]\<rparr>
      in case net url of
           Failed e \<Rightarrow> try_urls net cfg time_str row col rest (Some e) w1
         | Undecodable e \<Rightarrow>
             try_urls net cfg time_str row col rest (Some e)
               (w1\<lparr>files := write_file (tile_name row col) (files w1)\<rparr>)
         | Tile img \<Rightarrow> (w1\<lparr>files := write_file (tile_name row col) (files w1)\<rparr>, Inr img))"

text \<open>The body of the loop over the columns: one cell, with the \<^verbatim>\<open>raise\<close> after its loop.\<close>

definition download_tile ::
  "(string \<Rightarrow> response) \<Rightarrow> config \<Rightarrow> string \<Rightarrow> nat \<Rightarrow> nat \<Rightarrow> world \<Rightarrow> world \<times> (exn + image)" where
  "download_tile net cfg time_str row col w =
     (case try_urls net cfg time_str row col (BASE_URL cfg) None w of
        (w', Inr img) \<Rightarrow> (w', Inr img)
      | (w', Inl last_exception) \<Rightarrow>
          (w', Inl (RuntimeError
             (''Failed to download tile ('' @ show_nat col @ '','' @ show_nat row
               @ '') from all URLs'') last_exception)))"

text \<open>The loop over the columns of one row, and the loop over the rows.\<close>

fun download_row ::
  "(string \<Rightarrow> response) \<Rightarrow> config \<Rightarrow> string \<Rightarrow> nat \<Rightarrow> nat list \<Rightarrow> image list \<Rightarrow> world
     \<Rightarrow> world \<times> (exn + image list)" where
  "download_row net cfg time_str row [] row_tiles w = (w, Inr row_tiles)"
| "download_row net cfg time_str row (col # cols) row_tiles w =
     (case download_tile net cfg time_str row col w of
        (w', Inl e) \<Rightarrow> (w', Inl e)
      | (w', Inr img) \<Rightarrow> download_row net cfg time_str row cols (row_tiles @ [img]) w')"

fun download_rows ::
  "(string \<Rightarrow> response) \<Rightarrow> config \<Rightarrow> string \<Rightarrow> nat list \<Rightarrow> nat list \<Rightarrow> image list list \<Rightarrow> world
     \<Rightarrow> world \<times> (exn + image list list)" where
  "download_rows net cfg time_str [] cols tiles w = (w, Inr tiles)"
| "download_rows net cfg time_str (row # rows) cols tiles w =
     (case download_row net cfg time_str row cols [] w of
        (w', Inl e) \<Rightarrow> (w', Inl e)
      | (w', Inr row_tiles) \<Rightarrow> download_rows net cfg time_str rows cols (tiles @ [row_tiles]) w')"

definition download_tiles ::
  "(string \<Rightarrow> response) \<Rightarrow> config \<Rightarrow> string \<Rightarrow> world \<Rightarrow> world \<times> (exn + image list list)" where
  "download_tiles net cfg time_str w =
     download_rows net cfg time_str [0..<nat (ND cfg)] [0..<nat (ND cfg)] [] w"

subsection \<open>The run\<close>

text \<open>
  \<^verbatim>\<open>save_wallpaper\<close> reads the clock again for the file name; \<^verbatim>\<open>set_wallpaper\<close> hands the
  path to the desktop.
\<close>

definition save_wallpaper :: "config \<Rightarrow> datetime \<Rightarrow> image \<Rightarrow> world \<Rightarrow> world \<times> (exn + string)" where
  "save_wallpaper cfg now img w =
     (case get_aligned_time now (DELAY_MINUTES cfg) (UPDATE_INTERVAL_MINUTES cfg) of
        Inl e \<Rightarrow> (w, Inl e)
      | Inr aligned \<Rightarrow>
          let filename = artifact_name (ND cfg) (TILE_SIZE cfg) aligned
          in (w\<lparr>files := write_file filename (files w)\<rparr>, Inr filename))"

definition set_wallpaper :: "string \<Rightarrow> world \<Rightarrow> world" where
  "set_wallpaper path w = w\<lparr>wallpaper := wallpaper w @ [path]\<rparr>"

text \<open>
  \<^verbatim>\<open>main\<close>: prune, align, fetch, stitch, compose, save, set. \<open>now1\<close> and \<open>now2\<close> are the
  two clock readings, \<open>net\<close> answers the requests.
\<close>

definition main ::
  "(string \<Rightarrow> response) \<Rightarrow> (image \<Rightarrow> nat \<times> nat \<Rightarrow> nat \<Rightarrow> nat \<Rightarrow> rgb) \<Rightarrow> config \<Rightarrow> datetime \<Rightarrow> datetime
     \<Rightarrow> world \<Rightarrow> world \<times> (exn + unit)" where
  "main net LANCZOS cfg now1 now2 w =
     (let w1 = w\<lparr>files := clean_old_images (files w) (MAX_PIC cfg)\<rparr>
      in case get_aligned_time now1 (DELAY_MINUTES cfg) (UPDATE_INTERVAL_MINUTES cfg) of
           Inl e \<Rightarrow> (w1, Inl e)
         | Inr aligned_time \<Rightarrow>
            (case download_tiles net cfg (strftime_path aligned_time) w1 of
               (w2, Inl e) \<Rightarrow> (w2, Inl e)
             | (w2, Inr tiles) \<Rightarrow>
                (case stitch_tiles (ND cfg) tiles of
                   Inl e \<Rightarrow> (w2, Inl e)
                 | Inr big_img \<Rightarrow>
                    (case resize_and_center LANCZOS big_img (PIC_SIZE cfg) (COVER_RATIO cfg) of
                       Inl e \<Rightarrow> (w2, Inl e)
                     | Inr final_img \<Rightarrow>
                        (case save_wallpaper cfg now2 final_img w2 of
                           (w3, Inl e) \<Rightarrow> (w3, Inl e)
                         | (w3, Inr out_path) \<Rightarrow> (set_wallpaper out_path w3, Inr ()))))))"

text \<open>
  A mirror succeeds for a cell when its \<^verbatim>\<open>try\<close> block reaches the \<^verbatim>\<open>break\<close>, that is
  when the response is good and its body opens as an image; \<open>responded\<close> says that the
  response itself was good; \<open>raised\<close> is the exception the block caught.
\<close>

definition succeeded :: "response \<Rightarrow> bool" where
  "succeeded r = (case r of Tile img \<Rightarrow> True | Failed e \<Rightarrow> False | Undecodable e \<Rightarrow> False)"


definition raised :: "response \<Rightarrow> exn option" where
  "raised r = (case r of Tile img \<Rightarrow> None | Failed e \<Rightarrow> Some e | Undecodable e \<Rightarrow> Some e)"

text \<open>The URLs of one cell, one for each mirror, in the order of the mirror list.\<close>

definition tile_urls :: "config \<Rightarrow> string \<Rightarrow> nat \<Rightarrow> nat \<Rightarrow> string list" where
  "tile_urls cfg time_str row col =
     map (\<lambda>base. base @ ''/'' @ show_int (ND cfg) @ ''d/'' @ show_int (TILE_SIZE cfg) @ ''/''
            @ time_str @ ''_'' @ show_nat col @ ''_'' @ show_nat row @ ''.png'') (BASE_URL cfg)"

text \<open>
  An example configuration with two mirrors \<^verbatim>\<open>A\<close> and \<^verbatim>\<open>B\<close> and a \<open>2 \<times> 2\<close> grid, an
  empty world, and three networks: one where only mirror \<^verbatim>\<open>B\<close> serves the cell of row 0
  and column 1, one where every request fails, and one where mirror \<^verbatim>\<open>A\<close> answers this
  cell with a body that is not an image.
\<close>

definition demo_cfg :: config where
  "demo_cfg = \<lparr>BASE_URL = [''A'', ''B''], DELAY_MINUTES = 20, UPDATE_INTERVAL_MINUTES = 10,
     ND = 2, TILE_SIZE = 550, COVER_RATIO = PyFloat float_0_9, PIC_SIZE = (1920, 1080),
     MAX_PIC = 2\<rparr>"





text \<open>
  A cell fails when none of its mirrors succeeds; \<open>cell_requests\<close> are the requests one
  cell causes: the URLs of its mirrors in list order, up to and including the first one
  that succeeds.
\<close>

definition cell_fails :: "(string \<Rightarrow> response) \<Rightarrow> config \<Rightarrow> string \<Rightarrow> nat \<times> nat \<Rightarrow> bool" where
  "cell_fails net cfg time_str cell =
     (case cell of (row, col) \<Rightarrow>
        list_all (\<lambda>u. \<not> succeeded (net u)) (tile_urls cfg time_str row col))"

definition cell_requests :: "(string \<Rightarrow> response) \<Rightarrow> config \<Rightarrow> string \<Rightarrow> nat \<times> nat \<Rightarrow> string list" where
  "cell_requests net cfg time_str cell =
     (case cell of (row, col) \<Rightarrow>
        takeWhile (\<lambda>u. \<not> succeeded (net u)) (tile_urls cfg time_str row col)
        @ take 1 (dropWhile (\<lambda>u. \<not> succeeded (net u)) (tile_urls cfg time_str row col)))"

text \<open>
  The two loops of \<^verbatim>\<open>download_tiles\<close> over an explicit list of cells, keeping the world
  and the exception only; used to reason about the loops cell by cell.
\<close>

fun download_cells ::
  "(string \<Rightarrow> response) \<Rightarrow> config \<Rightarrow> string \<Rightarrow> (nat \<times> nat) list \<Rightarrow> world \<Rightarrow> world \<times> exn option" where
  "download_cells net cfg time_str [] w = (w, None)"
| "download_cells net cfg time_str ((row, col) # cells) w =
     (case download_tile net cfg time_str row col w of
        (w', Inl e) \<Rightarrow> (w', Some e)
      | (w', Inr img) \<Rightarrow> download_cells net cfg time_str cells w')"

definition failure :: "exn + 'a \<Rightarrow> exn option" where
  "failure r = (case r of Inl e \<Rightarrow> Some e | Inr x \<Rightarrow> None)"

text \<open>
  A network on which every request succeeds except those for the cell of row 0 and
  column 1 at the time \<^verbatim>\<open>2023/12/31/234000\<close>, and a world with the directory \<open>mixed_dir\<close>.
\<close>

definition net_one_cell_down :: "string \<Rightarrow> response" where
  "net_one_cell_down url =
     (if url = ''A/2d/550/2023/12/31/234000_1_0.png'' \<or> url = ''B/2d/550/2023/12/31/234000_1_0.png''
      then Failed (IOError ''timeout'')
      else Tile (solid 1 1 red))"

definition demo_world :: world where
  "demo_world = \<lparr>files = mixed_dir, requests = [], wallpaper = []\<rparr>"

section \<open>Properties\<close>

subsection \<open>Retention\<close>

lemma unlink_filter: "unlink x dir = filter (\<lambda>y. y \<noteq> x) dir"
  unfolding unlink_def by (induction dir) simp_all

lemma fold_unlink: "fold unlink xs dir = filter (\<lambda>f. f \<notin> set xs) dir"
proof (induction xs arbitrary: dir)
  case Nil
  then show ?case by simp
next
  case (Cons x xs)
  have "fold unlink (x # xs) dir = fold unlink xs (unlink x dir)" by simp
  also have "\<dots> = filter (\<lambda>f. f \<notin> set xs) (filter (\<lambda>y. y \<noteq> x) dir)"
    by (simp only: Cons.IH unlink_filter)
  also have "\<dots> = filter (\<lambda>f. f \<notin> set (x # xs)) dir"
    by (induction dir) simp_all
  finally show ?case .
qed

lemma length_filter_not_in_take:
  assumes "distinct images" "set s = set images" "distinct s" "n \<le> length s"
  shows "length (filter (\<lambda>f. f \<notin> set (take n s)) images) = length images - n"
proof -
  have d: "distinct (take n s)" using assms(3) by simp
  have sub: "set (take n s) \<subseteq> set images" using assms(2) set_take_subset [of n s] by simp
  have "distinct (filter (\<lambda>f. f \<notin> set (take n s)) images)"
    using assms(1) by simp
  then have "length (filter (\<lambda>f. f \<notin> set (take n s)) images)
        = card (set (filter (\<lambda>f. f \<notin> set (take n s)) images))"
    by (rule distinct_card [symmetric])
  also have "set (filter (\<lambda>f. f \<notin> set (take n s)) images) = set images - set (take n s)"
    by (simp add: set_diff_eq)
  also have "card (set images - set (take n s)) = card (set images) - card (set (take n s))"
    using sub by (simp add: card_Diff_subset)
  also have "card (set images) = length images" using assms(1) by (rule distinct_card)
  also have "card (set (take n s)) = length (take n s)" using d by (rule distinct_card)
  also have "length (take n s) = n" using assms(4) by simp
  finally show ?thesis .
qed

lemma filter_png_comm: "filter is_png (filter P dir) = filter P (filter is_png dir)"
  by (induction dir) simp_all

lemma clean_old_images_filter:
  "clean_old_images dir max_images =
     (if int (length (list_png dir)) \<le> max_images then dir
      else filter (\<lambda>f. f \<notin> set (take (nat (int (length (list_png dir)) - max_images))
                 (sort_key get_timestamp (list_png dir)))) dir)"
  by (simp add: clean_old_images_def Let_def fold_unlink)

lemma list_png_clean:
  "list_png (clean_old_images dir max_images) =
     (if int (length (list_png dir)) \<le> max_images then list_png dir
      else filter (\<lambda>f. f \<notin> set (take (nat (int (length (list_png dir)) - max_images))
                 (sort_key get_timestamp (list_png dir)))) (list_png dir))"
  unfolding clean_old_images_filter
  by (simp add: list_png_def filter_png_comm del: filter_filter)

lemma is_png_tile: "is_png (tile_name row col)"
  by (simp add: is_png_def tile_name_def)

lemma prune_count:
  assumes "distinct dir" "0 \<le> max_images" "max_images < int (length (list_png dir))"
  shows "int (length (list_png (clean_old_images dir max_images))) = max_images"
proof -
  let ?im = "list_png dir"
  let ?n = "nat (int (length ?im) - max_images)"
  have d: "distinct ?im" using assms(1) by (simp add: list_png_def)
  have n: "?n \<le> length (sort_key get_timestamp ?im)" using assms(2) by simp
  have "length (filter (\<lambda>f. f \<notin> set (take ?n (sort_key get_timestamp ?im))) ?im)
          = length ?im - ?n"
    using length_filter_not_in_take [OF d _ _ n] d by simp
  then show ?thesis using assms(2,3) by (simp add: list_png_clean)
qed


lemma prune_deleted:
  assumes "max_images < int (length (list_png dir))"
  shows "set dir - set (clean_old_images dir max_images) =
         set (take (nat (int (length (list_png dir)) - max_images))
                (sort_key get_timestamp (list_png dir)))"
proof -
  let ?doomed = "take (nat (int (length (list_png dir)) - max_images))
                (sort_key get_timestamp (list_png dir))"
  have a: "set (sort_key get_timestamp (list_png dir)) \<subseteq> set dir"
    by (auto simp: list_png_def)
  have "set ?doomed \<subseteq> set (sort_key get_timestamp (list_png dir))"
    by (rule set_take_subset)
  with a have sub: "set ?doomed \<subseteq> set dir" by (rule order_trans [rotated])
  have c: "set (clean_old_images dir max_images) = {f \<in> set dir. f \<notin> set ?doomed}"
    using assms by (simp add: clean_old_images_filter)
  from sub c show ?thesis by blast
qed

lemma show_nat_0: "show_nat 0 = ''0''"
  by (simp add: show_nat.simps digit_char_def)

lemma is_png_iff: "is_png name \<longleftrightarrow> (\<exists>b. name = b @ ''.png'')"
proof
  assume "is_png name"
  then have t: "take 4 (rev name) = rev ''.png''" by (simp only: is_png_def)
  have "rev name = take 4 (rev name) @ drop 4 (rev name)" by simp
  then have "rev name = rev ''.png'' @ drop 4 (rev name)" by (simp only: t)
  then have "rev (rev name) = rev (rev ''.png'' @ drop 4 (rev name))" by (rule arg_cong)
  then have "name = rev (drop 4 (rev name)) @ ''.png''" by (simp only: rev_rev_ident rev_append)
  then show "\<exists>b. name = b @ ''.png''" ..
next
  assume "\<exists>b. name = b @ ''.png''"
  then obtain b where "name = b @ ''.png''" ..
  then show "is_png name" by (simp add: is_png_def)
qed

lemma list_png_suffix: "list_png dir = filter (\<lambda>name. \<exists>b. name = b @ ''.png'') dir"
  unfolding list_png_def by (rule filter_cong) (simp_all add: is_png_iff)

lemma clean_keeps_others:
  "filter (\<lambda>name. \<not> is_png name) (clean_old_images dir max_images)
     = filter (\<lambda>name. \<not> is_png name) dir"
proof (cases "int (length (list_png dir)) \<le> max_images")
  case True
  then show ?thesis by (simp add: clean_old_images_filter)
next
  case False
  let ?doomed = "take (nat (int (length (list_png dir)) - max_images))
                (sort_key get_timestamp (list_png dir))"
  have "set ?doomed \<subseteq> set (sort_key get_timestamp (list_png dir))"
    by (rule set_take_subset)
  then have p: "\<forall>f \<in> set ?doomed. is_png f" by (auto simp: list_png_def)
  have "filter (\<lambda>name. \<not> is_png name) (filter (\<lambda>f. f \<notin> set ?doomed) dir)
      = filter (\<lambda>name. \<not> is_png name) dir"
    unfolding filter_filter by (rule filter_cong) (use p in auto)
  with False show ?thesis by (simp add: clean_old_images_filter)
qed

lemma clean_subset: "set (clean_old_images dir max_images) \<subseteq> set dir"
  by (auto simp: clean_old_images_filter)

text \<open>
  Claim C10. A \<^verbatim>\<open>.png\<close> file is a file whose name ends in \<^verbatim>\<open>.png\<close>. Every such file
  of the output directory counts toward the cap, the per-tile files
  \<^verbatim>\<open>tile_{row}_{col}.png\<close> included: when the directory holds more than \<open>max_images\<close>
  of them (for a cap that is a count, \<open>0 \<le> max_images\<close>), exactly \<open>max_images\<close> files
  ending in \<^verbatim>\<open>.png\<close> remain after \<^verbatim>\<open>clean_old_images\<close>, the other files are untouched,
  nothing is added, and the files deleted are the first \<open>count - max_images\<close> entries of
  the listing of all \<^verbatim>\<open>.png\<close> files sorted by \<^verbatim>\<open>get_timestamp\<close>.
\<close>

theorem prune_counts_every_png:
  assumes "distinct dir" and "0 \<le> max_images"
    and "max_images < int (length (filter (\<lambda>name. \<exists>b. name = b @ ''.png'') dir))"
  shows "int (length (filter (\<lambda>name. \<exists>b. name = b @ ''.png'')
                 (clean_old_images dir max_images))) = max_images
       \<and> filter (\<lambda>name. \<not> (\<exists>b. name = b @ ''.png'')) (clean_old_images dir max_images)
           = filter (\<lambda>name. \<not> (\<exists>b. name = b @ ''.png'')) dir
       \<and> set (clean_old_images dir max_images) \<subseteq> set dir
       \<and> (\<exists>b. tile_name row col = b @ ''.png'')
       \<and> set dir - set (clean_old_images dir max_images) =
           set (take (nat (int (length (filter (\<lambda>name. \<exists>b. name = b @ ''.png'') dir))
                           - max_images))
                  (sort_key get_timestamp (filter (\<lambda>name. \<exists>b. name = b @ ''.png'') dir)))"
proof -
  have c: "max_images < int (length (list_png dir))"
    using assms(3) by (simp only: list_png_suffix)
  have 1: "int (length (list_png (clean_old_images dir max_images))) = max_images"
    using assms(1,2) c by (rule prune_count)
  have 2: "filter (\<lambda>name. \<not> is_png name) (clean_old_images dir max_images)
     = filter (\<lambda>name. \<not> is_png name) dir" by (rule clean_keeps_others)
  have 3: "set (clean_old_images dir max_images) \<subseteq> set dir" by (rule clean_subset)
  have 4: "is_png (tile_name row col)" by (rule is_png_tile)
  have 5: "set dir - set (clean_old_images dir max_images) =
         set (take (nat (int (length (list_png dir)) - max_images))
                (sort_key get_timestamp (list_png dir)))"
    using c by (rule prune_deleted)
  from 1 2 3 4 5 show ?thesis
    unfolding list_png_suffix is_png_iff by (intro conjI)
qed

lemma mixed_dir_pngs:
  "filter (\<lambda>name. \<exists>b. name = b @ ''.png'') mixed_dir =
     [''tile_0_0.png'', ''4d_550_2024__01__15__122000.png'', ''4d_550_2024__01__15__123000.png'']"
  unfolding is_png_iff [symmetric] by (simp add: mixed_dir_def is_png_def)

lemma mixed_dir_clean:
  "clean_old_images mixed_dir 2 =
     [''readme.txt'', ''4d_550_2024__01__15__122000.png'', ''4d_550_2024__01__15__123000.png'']"
proof -
  have "list_png mixed_dir =
     [''tile_0_0.png'', ''4d_550_2024__01__15__122000.png'', ''4d_550_2024__01__15__123000.png'']"
    by (simp add: list_png_def mixed_dir_def is_png_def)
  then show ?thesis
    by (simp add: clean_old_images_def)
       (simp add: mixed_dir_def get_timestamp_def stem_def unlink_def)
qed

theorem prune_counts_every_png_witness:
  "int (length (filter (\<lambda>name. \<exists>b. name = b @ ''.png'') (clean_old_images mixed_dir 2))) = 2
   \<and> clean_old_images mixed_dir 2 =
     [''readme.txt'', ''4d_550_2024__01__15__122000.png'', ''4d_550_2024__01__15__123000.png'']
   \<and> tile_name 0 0 \<in> set mixed_dir
   \<and> tile_name 0 0 \<notin> set (clean_old_images mixed_dir 2)"
proof -
  have d: "distinct mixed_dir" by (simp add: mixed_dir_def)
  have z: "(0::int) \<le> 2" by simp
  have c: "2 < int (length (filter (\<lambda>name. \<exists>b. name = b @ ''.png'') mixed_dir))"
    by (simp add: mixed_dir_pngs)
  have t: "tile_name 0 0 \<in> set mixed_dir"
    by (simp add: tile_name_def show_nat_0 mixed_dir_def)
  have n: "tile_name 0 0 \<notin> set (clean_old_images mixed_dir 2)"
    by (simp add: tile_name_def show_nat_0 mixed_dir_clean)
  from prune_counts_every_png [OF d z c, of 0 0]
  have "int (length (filter (\<lambda>name. \<exists>b. name = b @ ''.png'')
            (clean_old_images mixed_dir 2))) = 2" by (rule conjunct1)
  with t n mixed_dir_clean show ?thesis by (intro conjI)
qed


lemma digit_char_in: "d < 10 \<Longrightarrow> is_digit (digit_char d)"
  unfolding digit_char_def is_digit_def by (rule nth_mem) simp

lemma show_nat_unfold_small: "n < 10 \<Longrightarrow> show_nat n = [digit_char n]"
  by (subst show_nat.simps) simp

lemma show_nat_unfold_big:
  "\<not> n < 10 \<Longrightarrow> show_nat n = show_nat (n div 10) @ [digit_char (n mod 10)]"
  by (subst show_nat.simps) simp

lemma show_nat_digits: "c \<in> set (show_nat n) \<Longrightarrow> is_digit c"
proof (induction n rule: show_nat.induct)
  case (1 n)
  show ?case
  proof (cases "n < 10")
    case True
    with "1.prems" have "c = digit_char n" by (simp add: show_nat_unfold_small)
    with True show ?thesis by (simp add: digit_char_in)
  next
    case False
    with "1.prems" have "c \<in> set (show_nat (n div 10)) \<or> c = digit_char (n mod 10)"
      by (auto simp add: show_nat_unfold_big)
    then show ?thesis
    proof
      assume "c \<in> set (show_nat (n div 10))"
      with False show ?thesis using "1.IH" by blast
    next
      assume "c = digit_char (n mod 10)"
      then show ?thesis by (simp add: digit_char_in)
    qed
  qed
qed

lemma show_nat_nonempty: "show_nat n \<noteq> []"
  by (cases "n < 10") (simp_all add: show_nat_unfold_small show_nat_unfold_big)

lemma is_digit_plain: "is_digit c \<Longrightarrow> c \<noteq> CHR ''_'' \<and> c \<noteq> CHR ''/'' \<and> c \<noteq> CHR ''-''"
  unfolding is_digit_def by auto

lemma is_digit_ge: "is_digit c \<Longrightarrow> CHR ''0'' \<le> c"
  unfolding is_digit_def by (auto simp: less_eq_char_def)

lemma show_int_plain:
  "c \<in> set (show_int i) \<Longrightarrow> c \<noteq> CHR ''_'' \<and> c \<noteq> CHR ''/''"
proof (cases "i < 0")
  case True
  assume "c \<in> set (show_int i)"
  with True have "c = CHR ''-'' \<or> c \<in> set (show_nat (nat (- i)))"
    by (simp add: show_int_def)
  then show ?thesis
  proof
    assume "c = CHR ''-''"
    then show ?thesis by simp
  next
    assume "c \<in> set (show_nat (nat (- i)))"
    then have "is_digit c" by (rule show_nat_digits)
    then show ?thesis using is_digit_plain by blast
  qed
next
  case False
  assume "c \<in> set (show_int i)"
  with False have "c \<in> set (show_nat (nat i))" by (simp add: show_int_def)
  then have "is_digit c" by (rule show_nat_digits)
  then show ?thesis using is_digit_plain by blast
qed

lemma show_int_nonempty: "show_int i \<noteq> []"
  by (simp add: show_int_def show_nat_nonempty)

lemma pad0_plain:
  assumes "c \<in> set (pad0 k (show_int i))"
  shows "c \<noteq> CHR ''_'' \<and> c \<noteq> CHR ''/''"
proof -
  from assms have "c = CHR ''0'' \<or> c \<in> set (show_int i)"
    by (auto simp: pad0_def)
  then show ?thesis using show_int_plain [of c i] by auto
qed

lemma no_underscore_show_int: "CHR ''_'' \<notin> set (show_int i)"
  using show_int_plain [of "CHR ''_''" i] by blast

lemma no_underscore_pad0: "CHR ''_'' \<notin> set (pad0 k (show_int i))"
  using pad0_plain [of "CHR ''_''" k i] by blast

lemma no_slash_pad0: "CHR ''/'' \<notin> set (pad0 k (show_int i))"
  using pad0_plain [of "CHR ''/''" k i] by blast

lemma split_on_prefix:
  "sep \<notin> set p \<Longrightarrow> split_on sep (p @ sep # r) = p # split_on sep r"
  by (induction p) auto

lemma stem_png: "body \<noteq> [] \<Longrightarrow> stem (body @ ''.png'') = body"
  by (simp add: stem_def)

lemma convert_time_append: "convert_time (a @ b) = convert_time a @ convert_time b"
  by (simp add: convert_time_def)

lemma convert_time_id: "CHR ''/'' \<notin> set s \<Longrightarrow> convert_time s = s"
  by (induction s) (auto simp: convert_time_def)

lemma convert_time_slash: "convert_time (CHR ''/'' # s) = ''__'' @ convert_time s"
  by (simp add: convert_time_def)

lemma convert_strftime:
  "convert_time (strftime_path dt) =
     pad0 4 (show_int (year dt)) @ ''__'' @ pad0 2 (show_int (month dt)) @ ''__'' @
     pad0 2 (show_int (day dt)) @ ''__'' @ pad0 2 (show_int (hour dt)) @
     pad0 2 (show_int (minute dt)) @ pad0 2 (show_int (second dt))"
  unfolding strftime_path_def
  by (simp add: convert_time_append convert_time_slash convert_time_id no_slash_pad0)

lemma split_artifact:
  "\<exists>rest. split_on CHR ''_'' (stem (artifact_name nd tile_size dt)) =
      (show_int nd @ ''d'') # show_int tile_size # pad0 4 (show_int (year dt)) # rest"
proof -
  define tl4 where "tl4 = CHR ''_'' # pad0 2 (show_int (month dt)) @ ''__'' @
     pad0 2 (show_int (day dt)) @ ''__'' @ pad0 2 (show_int (hour dt)) @
     pad0 2 (show_int (minute dt)) @ pad0 2 (show_int (second dt))"
  define body where "body = (show_int nd @ ''d'') @ CHR ''_'' # (show_int tile_size @ CHR ''_'' #
      (pad0 4 (show_int (year dt)) @ CHR ''_'' # tl4))"
  have body_ne: "body \<noteq> []" by (simp add: body_def)
  have "artifact_name nd tile_size dt = body @ ''.png''"
    by (simp add: artifact_name_def body_def convert_strftime tl4_def)
  then have st: "stem (artifact_name nd tile_size dt) = body"
    using stem_png [OF body_ne] by simp
  have nd: "CHR ''_'' \<notin> set (show_int nd @ ''d'')"
    using no_underscore_show_int [of nd] by simp
  have "split_on CHR ''_'' body =
      (show_int nd @ ''d'') # split_on CHR ''_'' (show_int tile_size @ CHR ''_'' #
      (pad0 4 (show_int (year dt)) @ CHR ''_'' # tl4))"
    unfolding body_def using nd by (rule split_on_prefix)
  also have "split_on CHR ''_'' (show_int tile_size @ CHR ''_'' #
      (pad0 4 (show_int (year dt)) @ CHR ''_'' # tl4)) =
      show_int tile_size # split_on CHR ''_'' (pad0 4 (show_int (year dt)) @ CHR ''_'' # tl4)"
    using no_underscore_show_int by (rule split_on_prefix)
  also have "split_on CHR ''_'' (pad0 4 (show_int (year dt)) @ CHR ''_'' # tl4) =
      pad0 4 (show_int (year dt)) # split_on CHR ''_'' tl4"
    using no_underscore_pad0 by (rule split_on_prefix)
  finally show ?thesis using st by simp
qed

lemma get_timestamp_artifact:
  "get_timestamp (artifact_name nd tile_size dt) = pad0 4 (show_int (year dt))"
proof -
  from split_artifact [of nd tile_size dt] obtain rest where
    "split_on CHR ''_'' (stem (artifact_name nd tile_size dt)) =
      (show_int nd @ ''d'') # show_int tile_size # pad0 4 (show_int (year dt)) # rest" ..
  then show ?thesis by (simp add: get_timestamp_def)
qed

lemma zero_less_digits:
  assumes "is_digit a" and "t \<noteq> []"
  shows "''0'' < a # t"
proof -
  from assms(1) have "CHR ''0'' \<le> a" by (rule is_digit_ge)
  then have "CHR ''0'' < a \<or> CHR ''0'' = a" by (simp add: le_less)
  then show ?thesis
  proof
    assume "CHR ''0'' < a"
    then show ?thesis by simp
  next
    assume "CHR ''0'' = a"
    moreover obtain b u where "t = b # u" using assms(2) by (cases t) simp_all
    ultimately show ?thesis by simp
  qed
qed

lemma zero_key_least:
  assumes "0 \<le> y"
  shows "''0'' < pad0 4 (show_int y)"
proof -
  let ?s = "show_nat (nat y)"
  have si: "show_int y = ?s" using assms by (simp add: show_int_def)
  obtain a t where at: "?s = a # t" using show_nat_nonempty [of "nat y"] by (cases ?s) simp_all
  have da: "is_digit a" using show_nat_digits [of a "nat y"] at by simp
  show ?thesis
  proof (cases "length ?s < 4")
    case True
    then obtain k where k: "4 - length ?s = Suc k" by (cases "4 - length ?s") simp_all
    have d0: "is_digit CHR ''0''" by (simp add: is_digit_def)
    have "pad0 4 (show_int y) = CHR ''0'' # (replicate k CHR ''0'' @ ?s)"
      by (simp add: pad0_def si k)
    moreover have "replicate k CHR ''0'' @ ?s \<noteq> []" using at by simp
    ultimately show ?thesis using zero_less_digits [OF d0] by simp
  next
    case False
    then have "pad0 4 (show_int y) = a # t" by (simp add: pad0_def si at)
    moreover have "t \<noteq> []" using False at by auto
    ultimately show ?thesis using zero_less_digits [OF da] by simp
  qed
qed


lemma show_nat_digit_values:
  "show_nat 0 = ''0''" "show_nat 1 = ''1''" "show_nat 2 = ''2''" "show_nat 3 = ''3''"
  "show_nat 4 = ''4''"
  by (simp_all add: show_nat_unfold_small digit_char_def)

lemma artifact_1220: "artifact_name 4 550 snap_1220 = ''4d_550_2024__01__15__122000.png''"
  by (simp add: artifact_name_def show_int_def show_nat.simps digit_char_def convert_time_def
      strftime_path_def pad0_def snap_1220_def)

lemma artifact_1230: "artifact_name 4 550 snap_1230 = ''4d_550_2024__01__15__123000.png''"
  by (simp add: artifact_name_def show_int_def show_nat.simps digit_char_def convert_time_def
      strftime_path_def pad0_def snap_1230_def)

text \<open>
  The sort key of an artifact is its year alone: the name is split at every single
  underscore, so the token after grid density and tile size ends at the first
  underscore of the \<^verbatim>\<open>__\<close> that \<^verbatim>\<open>convert_time\<close> put after the year.
\<close>

lemma clean_two_same_key:
  assumes "get_timestamp a = get_timestamp b" and "a \<noteq> b" and "is_png a" and "is_png b"
  shows "clean_old_images [a, b] 1 = [b]"
  using assms by (simp add: clean_old_images_def list_png_def unlink_def)

lemma clean_two_same_year:
  assumes "year d1 = year d2"
    and "artifact_name nd tile_size d1 \<noteq> artifact_name nd tile_size d2"
  shows "clean_old_images [artifact_name nd tile_size d1, artifact_name nd tile_size d2] 1
           = [artifact_name nd tile_size d2]"
proof (rule clean_two_same_key)
  show "get_timestamp (artifact_name nd tile_size d1) = get_timestamp (artifact_name nd tile_size d2)"
    using assms(1) by (simp add: get_timestamp_artifact)
  show "artifact_name nd tile_size d1 \<noteq> artifact_name nd tile_size d2" by (rule assms(2))
  show "is_png (artifact_name nd tile_size d1)" by (simp add: is_png_def artifact_name_def)
  show "is_png (artifact_name nd tile_size d2)" by (simp add: is_png_def artifact_name_def)
qed

text \<open>
  Claim C1, at a failing input. The directory holds the two artifacts of 12:20 and 12:30
  of the same day, enumerated newer first, and the cap is 1. Both have the sort key
  \<^verbatim>\<open>"2024"\<close>, the stable sort leaves the enumeration order, and the file deleted is the
  newer one: the file that remains is not the one with the largest timestamp.
\<close>

theorem prune_same_year_deletes_newer:
  "get_timestamp (artifact_name 4 550 snap_1230) = ''2024''
   \<and> get_timestamp (artifact_name 4 550 snap_1220) = ''2024''
   \<and> clean_old_images [artifact_name 4 550 snap_1230, artifact_name 4 550 snap_1220] 1
       = [artifact_name 4 550 snap_1220]
   \<and> artifact_name 4 550 snap_1230 = ''4d_550_2024__01__15__123000.png''
   \<and> artifact_name 4 550 snap_1220 = ''4d_550_2024__01__15__122000.png''"
proof -
  have k: "pad0 4 (show_int 2024) = ''2024''"
    by (simp add: pad0_def show_int_def show_nat.simps digit_char_def)
  have a: "get_timestamp (artifact_name 4 550 snap_1230) = ''2024''"
    by (simp add: get_timestamp_artifact snap_1230_def k)
  have b: "get_timestamp (artifact_name 4 550 snap_1220) = ''2024''"
    by (simp add: get_timestamp_artifact snap_1220_def k)
  have ne: "artifact_name 4 550 snap_1230 \<noteq> artifact_name 4 550 snap_1220"
    by (simp add: artifact_1220 artifact_1230)
  have "year snap_1230 = year snap_1220" by (simp add: snap_1230_def snap_1220_def)
  then have c: "clean_old_images [artifact_name 4 550 snap_1230, artifact_name 4 550 snap_1220] 1
       = [artifact_name 4 550 snap_1220]"
    using ne by (rule clean_two_same_year)
  from a b c show ?thesis by (simp add: artifact_1220 artifact_1230)
qed

text \<open>
  Claim C8, as stated, fails: the file \<^verbatim>\<open>tile_0_3.png\<close> that \<^verbatim>\<open>download_tiles\<close> writes
  carries no timestamp, its key is its third token \<^verbatim>\<open>"3"\<close>, and that key is above the
  key \<^verbatim>\<open>"2024"\<close> of an artifact: with a cap of 1 the artifact is deleted and the tile file
  stays.
\<close>

theorem tile_file_sorts_after_artifact:
  "get_timestamp (tile_name 0 3) = ''3''
   \<and> get_timestamp (artifact_name 4 550 snap_1230) = ''2024''
   \<and> get_timestamp (artifact_name 4 550 snap_1230) < get_timestamp (tile_name 0 3)
   \<and> clean_old_images [tile_name 0 3, artifact_name 4 550 snap_1230] 1 = [tile_name 0 3]"
proof -
  have t: "tile_name 0 3 = ''tile_0_3.png''"
    by (simp add: tile_name_def show_nat_digit_values)
  have kt: "get_timestamp (tile_name 0 3) = ''3''"
    by (simp add: t get_timestamp_def stem_def)
  have ka: "get_timestamp (artifact_name 4 550 snap_1230) = ''2024''"
    by (simp add: artifact_1230 get_timestamp_def stem_def)
  have lt: "(''2024'' :: string) < ''3''" by simp
  have c: "clean_old_images [tile_name 0 3, artifact_name 4 550 snap_1230] 1 = [tile_name 0 3]"
    unfolding t artifact_1230
    by (simp add: clean_old_images_def list_png_def is_png_def get_timestamp_def stem_def
        unlink_def)
  from kt ka lt c show ?thesis by simp
qed

lemma get_timestamp_checked_ok: "get_timestamp_checked name = Inr (get_timestamp name)"
  by (simp add: get_timestamp_checked_def get_timestamp_def list_index_def Let_def)

lemma sort_keys_ok: "sort_keys images = Inr (map (\<lambda>img. (get_timestamp img, img)) images)"
  by (induction images) (simp_all add: get_timestamp_checked_ok)

lemma insort_key_decorated:
  "insort_key fst (k x, x) (map (\<lambda>y. (k y, y)) ys) = map (\<lambda>y. (k y, y)) (insort_key k x ys)"
  by (induction ys) simp_all

lemma sort_key_decorated:
  "sort_key fst (map (\<lambda>y. (k y, y)) xs) = map (\<lambda>y. (k y, y)) (sort_key k xs)"
  by (induction xs) (simp_all add: insort_key_decorated)

lemma sorted_decorated:
  "map snd (sort_key fst (map (\<lambda>y. (k y, y)) xs)) = sort_key k xs"
  by (simp add: sort_key_decorated comp_def)

lemma clean_old_images_checked_ok:
  "clean_old_images_checked dir max_images = Inr (clean_old_images dir max_images)"
  by (simp add: clean_old_images_checked_def clean_old_images_def sort_keys_ok Let_def
      sorted_decorated)

text \<open>
  Claim C8, amended. A file whose stem has fewer than three underscore-separated tokens
  gets the key \<^verbatim>\<open>"0"\<close>, and that key is strictly below the key of every artifact name
  that \<^verbatim>\<open>save_wallpaper\<close> builds (for a year that is not negative), so such a file sorts
  before every artifact. Computing the sort key raises on no name, and so pruning fails
  on no directory because of a name.
\<close>

theorem short_name_sorts_first:
  "get_timestamp_checked name = Inr (get_timestamp name)
   \<and> clean_old_images_checked dir max_images = Inr (clean_old_images dir max_images)
   \<and> (length (split_on CHR ''_'' (stem name)) < 3 \<and> 0 \<le> year dt \<longrightarrow>
        get_timestamp name = ''0''
        \<and> get_timestamp name < get_timestamp (artifact_name nd tile_size dt))"
proof (intro conjI impI)
  show "get_timestamp_checked name = Inr (get_timestamp name)"
    by (rule get_timestamp_checked_ok)
  show "clean_old_images_checked dir max_images = Inr (clean_old_images dir max_images)"
    by (rule clean_old_images_checked_ok)
  assume a: "length (split_on CHR ''_'' (stem name)) < 3 \<and> 0 \<le> year dt"
  then show k: "get_timestamp name = ''0''" by (simp add: get_timestamp_def)
  have "''0'' < pad0 4 (show_int (year dt))" using a by (simp add: zero_key_least)
  with k show "get_timestamp name < get_timestamp (artifact_name nd tile_size dt)"
    by (simp add: get_timestamp_artifact)
qed

theorem short_name_sorts_first_witness:
  "get_timestamp_checked ''notes.png'' = Inr ''0''
   \<and> get_timestamp ''notes.png'' < get_timestamp (artifact_name 4 550 snap_1230)
   \<and> clean_old_images_checked mixed_dir 2 =
      Inr [''readme.txt'', ''4d_550_2024__01__15__122000.png'', ''4d_550_2024__01__15__123000.png'']"
proof -
  have a: "length (split_on CHR ''_'' (stem ''notes.png'')) < 3 \<and> 0 \<le> year snap_1230"
    by (simp add: stem_def snap_1230_def)
  note t = short_name_sorts_first [of "''notes.png''" mixed_dir 2 snap_1230 4 550]
  from t a have k: "get_timestamp ''notes.png'' = ''0''"
    and l: "get_timestamp ''notes.png'' < get_timestamp (artifact_name 4 550 snap_1230)"
    by blast+
  from t have "get_timestamp_checked ''notes.png'' = Inr (get_timestamp ''notes.png'')"
    by (rule conjunct1)
  with k have c: "get_timestamp_checked ''notes.png'' = Inr ''0''" by simp
  from t have "clean_old_images_checked mixed_dir 2 = Inr (clean_old_images mixed_dir 2)"
    by blast
  then have p: "clean_old_images_checked mixed_dir 2 =
      Inr [''readme.txt'', ''4d_550_2024__01__15__122000.png'', ''4d_550_2024__01__15__123000.png'']"
    by (simp only: mixed_dir_clean)
  from c l p show ?thesis by (intro conjI)
qed



subsection \<open>Time alignment\<close>

lemma sub_minutes_minute:
  assumes "sub_minutes now lag = Inr target"
  shows "0 \<le> minute target \<and> minute target \<le> 59"
proof -
  define secs where "secs = hour now * 3600 + minute now * 60 + second now - lag * 60"
  define days where "days = ymd2ord (year now) (month now) (day now) + secs div 86400"
  define r where "r = (secs mod 86400) mod 3600"
  have u: "sub_minutes now lag =
     (if 0 < days \<and> days \<le> MAXORDINAL
         then (case ord2ymd days of (y, m, d) \<Rightarrow>
                 Inr \<lparr>year = y, month = m, day = d, hour = (secs mod 86400) div 3600,
                      minute = r div 60, second = r mod 60,
                      microsecond = microsecond now\<rparr>)
         else Inl OverflowError)"
    unfolding sub_minutes_def Let_def secs_def days_def r_def ..
  obtain y m d where o: "ord2ymd days = (y, m, d)" by (cases "ord2ymd days")
  have "0 < days \<and> days \<le> MAXORDINAL"
  proof (rule ccontr)
    assume "\<not> (0 < days \<and> days \<le> MAXORDINAL)"
    then have "sub_minutes now lag = Inl OverflowError" unfolding u by (rule if_not_P)
    with assms show False by simp
  qed
  then have "sub_minutes now lag = Inr \<lparr>year = y, month = m, day = d,
      hour = (secs mod 86400) div 3600, minute = r div 60, second = r mod 60,
      microsecond = microsecond now\<rparr>"
    unfolding u o by simp
  with assms have m: "minute target = r div 60" by auto
  have r0: "0 \<le> r" and r1: "r \<le> 3599" unfolding r_def by simp_all
  have "0 \<le> r div 60" using r0 by (simp add: pos_imp_zdiv_nonneg_iff)
  moreover have "r div 60 \<le> 3599 div 60" using r1 by (rule zdiv_mono1) simp
  ultimately show ?thesis unfolding m by simp
qed



lemma sub_minutes_new_year:
  "sub_minutes new_year_0005 20 = Inr \<lparr>year = 2023, month = 12, day = 31, hour = 23,
     minute = 45, second = 30, microsecond = 123456\<rparr>"
  by (simp add: sub_minutes_def new_year_0005_def ymd2ord_def days_before_year_def
      days_before_month_def DAYS_BEFORE_MONTH_def DAYS_IN_MONTH_def is_leap_def ord2ymd_def
      MAXORDINAL_def Let_def)












lemma get_aligned_time_new_year:
  "get_aligned_time new_year_0005 20 10 = Inr \<lparr>year = 2023, month = 12, day = 31,
     hour = 23, minute = 40, second = 0, microsecond = 0\<rparr>"
  by (simp add: get_aligned_time_def sub_minutes_new_year)




lemma get_aligned_time_zero_interval:
  "sub_minutes now lag = Inr target \<Longrightarrow> get_aligned_time now lag 0 = Inl ZeroDivisionError"
  by (simp add: get_aligned_time_def)

subsection \<open>Stitching\<close>

lemma paste_size [simp]: "im_w (paste bg im box) = im_w bg" "im_h (paste bg im box) = im_h bg"
  by (simp_all add: paste_def split: prod.splits)

lemma block_div:
  fixes w :: nat
  assumes "0 < w"
  shows "(c * w \<le> X \<and> X < c * w + w) \<longleftrightarrow> X div w = c"
proof
  assume a: "c * w \<le> X \<and> X < c * w + w"
  then have "w * c \<le> X" "X < w * Suc c" by (simp_all add: mult.commute)
  then show "X div w = c" by (rule div_nat_eqI)
next
  assume "X div w = c"
  then have c: "c = X div w" by simp
  have e: "X = (X div w) * w + X mod w" by simp
  have "X mod w < w" using assms by simp
  with e show "c * w \<le> X \<and> X < c * w + w" unfolding c by linarith
qed

lemma int_block:
  "(0 \<le> int X - int K \<and> int X - int K < int w) \<longleftrightarrow> (K \<le> X \<and> X < K + w)"
  by arith

lemma nat_int_diff: "nat (int X - int K) = X - K"
  by arith

lemma paste_px_block:
  assumes "0 < w" "0 < h" "im_w im = w" "im_h im = h"
  shows "im_px (paste bg im (int (c * w), int (r * h))) X Y =
         (if X div w = c \<and> Y div h = r then im_px im (X mod w) (Y mod h) else im_px bg X Y)"
proof -
  have bx: "(0 \<le> int X - int (c * w) \<and> int X - int (c * w) < int w) \<longleftrightarrow> X div w = c"
    unfolding int_block by (rule block_div [OF assms(1)])
  have by': "(0 \<le> int Y - int (r * h) \<and> int Y - int (r * h) < int h) \<longleftrightarrow> Y div h = r"
    unfolding int_block by (rule block_div [OF assms(2)])
  have mx: "nat (int X - int (c * w)) = X mod w" if "X div w = c"
    unfolding nat_int_diff using minus_div_mult_eq_mod [of X w] that by simp
  have my: "nat (int Y - int (r * h)) = Y mod h" if "Y div h = r"
    unfolding nat_int_diff using minus_div_mult_eq_mod [of Y h] that by simp
  have u: "im_px (paste bg im (int (c * w), int (r * h))) X Y =
      (if (0 \<le> int X - int (c * w) \<and> int X - int (c * w) < int w)
          \<and> (0 \<le> int Y - int (r * h) \<and> int Y - int (r * h) < int h)
       then im_px im (nat (int X - int (c * w))) (nat (int Y - int (r * h)))
       else im_px bg X Y)"
    unfolding paste_def Let_def assms(3,4) by (simp del: of_nat_mult)
  show ?thesis
  proof (cases "X div w = c \<and> Y div h = r")
    case True
    then have x: "X div w = c" and y: "Y div h = r" by simp_all
    show ?thesis unfolding u bx by' mx [OF x] my [OF y] ..
  next
    case False
    show ?thesis unfolding u bx by' by (simp only: False if_False)
  qed
qed

lemma paste_row_ok:
  assumes "row < length tiles" and "\<forall>col \<in> set cols. col < length (tiles ! row)"
  shows "\<exists>big'. paste_row tiles w h row cols big = Inr big'
           \<and> im_w big' = im_w big \<and> im_h big' = im_h big"
  using assms(2)
proof (induction cols arbitrary: big)
  case Nil
  then show ?case by simp
next
  case (Cons col cols)
  let ?b = "paste big (tiles ! row ! col) (int (col * w), int (row * h))"
  from Cons.prems have "\<forall>c \<in> set cols. c < length (tiles ! row)" by simp
  from Cons.IH [OF this, of ?b] obtain big' where
    "paste_row tiles w h row cols ?b = Inr big'" "im_w big' = im_w ?b" "im_h big' = im_h ?b"
    by blast
  moreover have "col < length (tiles ! row)" using Cons.prems by simp
  ultimately show ?case using assms(1) by simp
qed

lemma paste_rows_ok:
  assumes "\<forall>row \<in> set rows. row < length tiles \<and> (\<forall>col \<in> set cols. col < length (tiles ! row))"
  shows "\<exists>big'. paste_rows tiles w h rows cols big = Inr big'
           \<and> im_w big' = im_w big \<and> im_h big' = im_h big"
  using assms
proof (induction rows arbitrary: big)
  case Nil
  then show ?case by simp
next
  case (Cons row rows)
  from Cons.prems have r: "row < length tiles" "\<forall>col \<in> set cols. col < length (tiles ! row)"
    by simp_all
  from paste_row_ok [OF r, of w h big] obtain b1 where
    b1: "paste_row tiles w h row cols big = Inr b1" "im_w b1 = im_w big" "im_h b1 = im_h big"
    by blast
  from Cons.prems have
    "\<forall>r \<in> set rows. r < length tiles \<and> (\<forall>col \<in> set cols. col < length (tiles ! r))"
    by simp
  from Cons.IH [OF this, of b1] obtain b2 where
    "paste_rows tiles w h rows cols b1 = Inr b2" "im_w b2 = im_w b1" "im_h b2 = im_h b1"
    by blast
  with b1 show ?case by simp
qed

lemma paste_cells_append:
  "paste_cells tiles w h (xs @ ys) big =
     (case paste_cells tiles w h xs big of Inl e \<Rightarrow> Inl e | Inr b \<Rightarrow> paste_cells tiles w h ys b)"
  by (induction xs arbitrary: big) auto

lemma paste_row_cells:
  "paste_row tiles w h row cols big = paste_cells tiles w h (map (\<lambda>col. (row, col)) cols) big"
  by (induction cols arbitrary: big) simp_all

lemma paste_rows_cells:
  "paste_rows tiles w h rows cols big =
     paste_cells tiles w h (concat (map (\<lambda>row. map (\<lambda>col. (row, col)) cols) rows)) big"
proof (induction rows arbitrary: big)
  case Nil
  then show ?case by simp
next
  case (Cons row rows)
  show ?case
    by (simp add: paste_cells_append paste_row_cells [symmetric] Cons.IH cong: sum.case_cong)
qed

lemma paste_row_px:
  assumes "0 < w" "0 < h" "row < length tiles"
    and "\<forall>col \<in> set cols. col < length (tiles ! row)
            \<and> im_w (tiles ! row ! col) = w \<and> im_h (tiles ! row ! col) = h"
    and "paste_row tiles w h row cols big = Inr big'"
  shows "im_px big' X Y =
     (if Y div h = row \<and> X div w \<in> set cols
      then im_px (tiles ! row ! (X div w)) (X mod w) (Y mod h) else im_px big X Y)"
  using assms(4,5)
proof (induction cols arbitrary: big)
  case Nil
  then show ?case by simp
next
  case (Cons col cols)
  let ?t = "tiles ! row ! col"
  let ?b = "paste big ?t (int (col * w), int (row * h))"
  from Cons.prems(1) have c: "col < length (tiles ! row)" "im_w ?t = w" "im_h ?t = h"
    and rest: "\<forall>c \<in> set cols. c < length (tiles ! row)
            \<and> im_w (tiles ! row ! c) = w \<and> im_h (tiles ! row ! c) = h"
    by simp_all
  from Cons.prems(2) c(1) assms(3) have "paste_row tiles w h row cols ?b = Inr big'"
    by simp
  from Cons.IH [OF rest this] have ih: "im_px big' X Y =
     (if Y div h = row \<and> X div w \<in> set cols
      then im_px (tiles ! row ! (X div w)) (X mod w) (Y mod h) else im_px ?b X Y)" .
  have p: "im_px ?b X Y =
     (if X div w = col \<and> Y div h = row then im_px ?t (X mod w) (Y mod h) else im_px big X Y)"
    using assms(1,2) c(2,3) by (rule paste_px_block)
  show ?case unfolding ih p by auto
qed

lemma paste_rows_px:
  assumes "0 < w" "0 < h"
    and "\<forall>row \<in> set rows. row < length tiles \<and> (\<forall>col \<in> set cols. col < length (tiles ! row)
            \<and> im_w (tiles ! row ! col) = w \<and> im_h (tiles ! row ! col) = h)"
    and "paste_rows tiles w h rows cols big = Inr big'"
  shows "im_px big' X Y =
     (if Y div h \<in> set rows \<and> X div w \<in> set cols
      then im_px (tiles ! (Y div h) ! (X div w)) (X mod w) (Y mod h) else im_px big X Y)"
  using assms(3,4)
proof (induction rows arbitrary: big)
  case Nil
  then show ?case by simp
next
  case (Cons row rows)
  from Cons.prems(1) have r: "row < length tiles"
    and u: "\<forall>col \<in> set cols. col < length (tiles ! row)
            \<and> im_w (tiles ! row ! col) = w \<and> im_h (tiles ! row ! col) = h"
    and rest: "\<forall>r \<in> set rows. r < length tiles \<and> (\<forall>col \<in> set cols. col < length (tiles ! r)
            \<and> im_w (tiles ! r ! col) = w \<and> im_h (tiles ! r ! col) = h)"
    by simp_all
  from u have "\<forall>col \<in> set cols. col < length (tiles ! row)" by simp
  from paste_row_ok [OF r this, of w h big] obtain b1 where
    b1: "paste_row tiles w h row cols big = Inr b1" by blast
  with Cons.prems(2) have "paste_rows tiles w h rows cols b1 = Inr big'" by simp
  from Cons.IH [OF rest this] have ih: "im_px big' X Y =
     (if Y div h \<in> set rows \<and> X div w \<in> set cols
      then im_px (tiles ! (Y div h) ! (X div w)) (X mod w) (Y mod h) else im_px b1 X Y)" .
  have p: "im_px b1 X Y =
     (if Y div h = row \<and> X div w \<in> set cols
      then im_px (tiles ! row ! (X div w)) (X mod w) (Y mod h) else im_px big X Y)"
    using assms(1,2) r u b1 by (rule paste_row_px)
  show ?case unfolding ih p by auto
qed

lemma Image_new_nat:
  "Image_new (int a, int b) c = Inr \<lparr>im_w = a, im_h = b, im_px = (\<lambda>x y. c)\<rparr>"
  by (simp add: Image_new_def)

lemma stitch_tiles_unfold:
  assumes "0 < N" and "length tiles = N" and "\<forall>row<N. length (tiles ! row) = N"
  shows "stitch_tiles (int N) tiles =
     paste_rows tiles (im_w (tiles ! 0 ! 0)) (im_h (tiles ! 0 ! 0)) [0..<N] [0..<N]
       \<lparr>im_w = N * im_w (tiles ! 0 ! 0), im_h = N * im_h (tiles ! 0 ! 0),
        im_px = (\<lambda>x y. black)\<rparr>"
    and "Image_new (int (N * im_w (tiles ! 0 ! 0)), int (N * im_h (tiles ! 0 ! 0))) black =
       Inr \<lparr>im_w = N * im_w (tiles ! 0 ! 0), im_h = N * im_h (tiles ! 0 ! 0),
        im_px = (\<lambda>x y. black)\<rparr>"
proof -
  obtain row0 rs where t: "tiles = row0 # rs" using assms(1,2) by (cases tiles) auto
  have "length (tiles ! 0) = N" using assms(1,3) by simp
  then have "length row0 = N" using t by simp
  then obtain tile0 ts where r: "row0 = tile0 # ts" using assms(1) by (cases row0) auto
  have z: "tiles ! 0 ! 0 = tile0" using t r by simp
  have n: "Image_new (int (im_w tile0) * int N, int (im_h tile0) * int N) black =
      Inr \<lparr>im_w = N * im_w tile0, im_h = N * im_h tile0, im_px = (\<lambda>x y. black)\<rparr>"
  proof -
    have "int (im_w tile0) * int N = int (N * im_w tile0)"
      and "int (im_h tile0) * int N = int (N * im_h tile0)" by simp_all
    then show ?thesis by (simp only: Image_new_nat)
  qed
  show "stitch_tiles (int N) tiles =
     paste_rows tiles (im_w (tiles ! 0 ! 0)) (im_h (tiles ! 0 ! 0)) [0..<N] [0..<N]
       \<lparr>im_w = N * im_w (tiles ! 0 ! 0), im_h = N * im_h (tiles ! 0 ! 0),
        im_px = (\<lambda>x y. black)\<rparr>"
    unfolding z unfolding stitch_tiles_def t r by (simp add: Let_def n)
  show "Image_new (int (N * im_w (tiles ! 0 ! 0)), int (N * im_h (tiles ! 0 ! 0))) black =
       Inr \<lparr>im_w = N * im_w (tiles ! 0 ! 0), im_h = N * im_h (tiles ! 0 ! 0),
        im_px = (\<lambda>x y. black)\<rparr>"
    by (rule Image_new_nat)
qed

lemma block_point:
  fixes w :: nat
  assumes "x < w"
  shows "(c * w + x) div w = c" and "(c * w + x) mod w = x"
  using assms by simp_all

text \<open>
  Claim C5. For an \<open>N \<times> N\<close> grid (\<open>N \<ge> 1\<close>) whose tiles all have size \<open>(w, h)\<close>,
  \<^verbatim>\<open>stitch_tiles\<close> returns a composite of size \<open>(N * w, N * h)\<close> in which the pixel
  \<open>(x, y)\<close> of the tile of cell \<open>(row, col)\<close> is at \<open>(col * w + x, row * h + y)\<close>, and
  the composite is the result of pasting the cells one after the other, rows outer and
  columns inner, onto a new black image.
\<close>

theorem stitch_tiles_uniform:
  assumes "0 < N" and "length tiles = N" and "\<forall>row<N. length (tiles ! row) = N"
    and "\<forall>row<N. \<forall>col<N. im_w (tiles ! row ! col) = w \<and> im_h (tiles ! row ! col) = h"
  shows "\<exists>big canvas. stitch_tiles (int N) tiles = Inr big
       \<and> im_w big = N * w \<and> im_h big = N * h
       \<and> (\<forall>row<N. \<forall>col<N. \<forall>x<w. \<forall>y<h.
             im_px big (col * w + x) (row * h + y) = im_px (tiles ! row ! col) x y)
       \<and> Image_new (int (N * w), int (N * h)) black = Inr canvas
       \<and> paste_cells tiles w h (grid_cells N) canvas = Inr big"
proof -
  from assms(1,4) have wh: "im_w (tiles ! 0 ! 0) = w" "im_h (tiles ! 0 ! 0) = h" by simp_all
  define canvas where "canvas = \<lparr>im_w = N * w, im_h = N * h, im_px = (\<lambda>x y. black)\<rparr>"
  note u = stitch_tiles_unfold [OF assms(1-3), unfolded wh, folded canvas_def]
  have rng: "\<forall>row \<in> set [0..<N]. row < length tiles
        \<and> (\<forall>col \<in> set [0..<N]. col < length (tiles ! row))"
    using assms(2,3) by simp
  from paste_rows_ok [OF rng, of w h canvas] obtain big where
    big: "paste_rows tiles w h [0..<N] [0..<N] canvas = Inr big"
      "im_w big = im_w canvas" "im_h big = im_h canvas" by blast
  have px: "im_px big (col * w + x) (row * h + y) = im_px (tiles ! row ! col) x y"
    if "row < N" "col < N" "x < w" "y < h" for row col x y
  proof -
    have w0: "0 < w" and h0: "0 < h" using that by simp_all
    have uni: "\<forall>row \<in> set [0..<N]. row < length tiles \<and> (\<forall>col \<in> set [0..<N].
         col < length (tiles ! row) \<and> im_w (tiles ! row ! col) = w \<and> im_h (tiles ! row ! col) = h)"
      using assms(2,3,4) by simp
    have "im_px big (col * w + x) (row * h + y) =
       (if (row * h + y) div h \<in> set [0..<N] \<and> (col * w + x) div w \<in> set [0..<N]
        then im_px (tiles ! ((row * h + y) div h) ! ((col * w + x) div w))
               ((col * w + x) mod w) ((row * h + y) mod h)
        else im_px canvas (col * w + x) (row * h + y))"
      using w0 h0 uni big(1) by (rule paste_rows_px)
    then show ?thesis
      unfolding block_point [OF that(3)] block_point [OF that(4)] using that(1,2) by simp
  qed
  show ?thesis
  proof (intro exI conjI allI impI)
    show "stitch_tiles (int N) tiles = Inr big" using u(1) big(1) by simp
    show "im_w big = N * w" using big(2) by (simp add: canvas_def)
    show "im_h big = N * h" using big(3) by (simp add: canvas_def)
    show "im_px big (col * w + x) (row * h + y) = im_px (tiles ! row ! col) x y"
      if "row < N" "col < N" "x < w" "y < h" for row col x y
      using that by (rule px)
    show "Image_new (int (N * w), int (N * h)) black = Inr canvas" by (rule u(2))
    show "paste_cells tiles w h (grid_cells N) canvas = Inr big"
      using big(1) by (simp add: grid_cells_def paste_rows_cells)
  qed
qed

lemma upt_0_2: "[0..<2] = [0, Suc 0]"
  by (simp add: numeral_2_eq_2)

lemma all_less_2: "(\<forall>n<2. P n) \<longleftrightarrow> P 0 \<and> P (Suc 0)"
  by (auto simp: numeral_2_eq_2 less_Suc_eq)

theorem stitch_tiles_uniform_witness:
  "\<exists>big. stitch_tiles 2 uniform_grid = Inr big \<and> im_w big = 4 \<and> im_h big = 2
     \<and> im_px big 0 0 = red \<and> im_px big 3 0 = green
     \<and> im_px big 1 1 = blue \<and> im_px big 2 1 = white"
proof -
  have n: "(0::nat) < 2" by simp
  have l: "length uniform_grid = 2" by (simp add: uniform_grid_def)
  have r: "\<forall>row<2. length (uniform_grid ! row) = 2"
    by (simp add: all_less_2 uniform_grid_def)
  have s: "\<forall>row<2. \<forall>col<2. im_w (uniform_grid ! row ! col) = 2
             \<and> im_h (uniform_grid ! row ! col) = 1"
    by (simp add: all_less_2 uniform_grid_def solid_def)
  from stitch_tiles_uniform [OF n l r s] obtain big where
    b: "stitch_tiles (int 2) uniform_grid = Inr big" "im_w big = 2 * 2" "im_h big = 2 * 1"
    and p: "\<forall>row<2. \<forall>col<2. \<forall>x<2. \<forall>y<1.
             im_px big (col * 2 + x) (row * 1 + y) = im_px (uniform_grid ! row ! col) x y"
    by blast
  from p have "im_px big (0 * 2 + 0) (0 * 1 + 0) = im_px (uniform_grid ! 0 ! 0) 0 0"
    by (simp add: all_less_2)
  then have p00: "im_px big 0 0 = red" by (simp add: uniform_grid_def solid_def)
  from p have "im_px big (Suc 0 * 2 + Suc 0) (0 * 1 + 0) = im_px (uniform_grid ! 0 ! Suc 0) (Suc 0) 0"
    by (simp add: all_less_2)
  then have p30: "im_px big 3 0 = green"
    by (simp add: uniform_grid_def solid_def numeral_3_eq_3 numeral_2_eq_2)
  from p have "im_px big (0 * 2 + Suc 0) (Suc 0 * 1 + 0) = im_px (uniform_grid ! Suc 0 ! 0) (Suc 0) 0"
    by (simp add: all_less_2)
  then have p11: "im_px big 1 1 = blue" by (simp add: uniform_grid_def solid_def)
  from p have "im_px big (Suc 0 * 2 + 0) (Suc 0 * 1 + 0) = im_px (uniform_grid ! Suc 0 ! Suc 0) 0 0"
    by (simp add: all_less_2)
  then have p21: "im_px big 2 1 = white"
    by (simp add: uniform_grid_def solid_def numeral_2_eq_2)
  from b p00 p30 p11 p21 show ?thesis by simp
qed

lemma stitch_mixed:
  "stitch_tiles 2 mixed_grid =
     Inr (paste (paste (paste (paste \<lparr>im_w = 4, im_h = 4, im_px = (\<lambda>x y. black)\<rparr>
        (solid 2 2 red) (0, 0)) (solid 1 1 green) (2, 0)) (solid 2 2 blue) (0, 2))
        (solid 3 3 white) (2, 2))"
  by (simp add: stitch_tiles_def mixed_grid_def Image_new_def upt_0_2 Let_def)
     (simp add: solid_def)

text \<open>
  Claim C7, as stated, fails: a grid whose tiles have the widths 2, 1, 2 and 3 is
  stitched without an error. The composite is \<open>4 \<times> 4\<close>; the \<open>1 \<times> 1\<close> tile leaves
  the rest of its cell black, and the \<open>3 \<times> 3\<close> tile is cut at the border.
\<close>

theorem stitch_tiles_mixed_sizes_accepted:
  "\<not> isl (stitch_tiles 2 mixed_grid)
   \<and> im_w (projr (stitch_tiles 2 mixed_grid)) = 4
   \<and> im_h (projr (stitch_tiles 2 mixed_grid)) = 4
   \<and> im_w (mixed_grid ! 0 ! 1) = 1 \<and> im_w (mixed_grid ! 1 ! 1) = 3
   \<and> im_px (projr (stitch_tiles 2 mixed_grid)) 2 0 = green
   \<and> im_px (projr (stitch_tiles 2 mixed_grid)) 3 0 = black
   \<and> im_px (projr (stitch_tiles 2 mixed_grid)) 3 3 = white"
  unfolding stitch_mixed
  by (simp add: paste_def solid_def mixed_grid_def)

lemma find_append_case:
  "find P (xs @ ys) = (case find P xs of None \<Rightarrow> find P ys | Some x \<Rightarrow> Some x)"
  by (induction xs) simp_all

lemma paste_px_nat:
  "im_px (paste bg im (int ox, int oy)) X Y =
     (if ox \<le> X \<and> X < ox + im_w im \<and> oy \<le> Y \<and> Y < oy + im_h im
      then im_px im (X - ox) (Y - oy) else im_px bg X Y)"
proof -
  have u: "im_px (paste bg im (int ox, int oy)) X Y =
      (if (0 \<le> int X - int ox \<and> int X - int ox < int (im_w im))
          \<and> (0 \<le> int Y - int oy \<and> int Y - int oy < int (im_h im))
       then im_px im (nat (int X - int ox)) (nat (int Y - int oy))
       else im_px bg X Y)"
    unfolding paste_def Let_def by simp
  show ?thesis unfolding u int_block nat_int_diff by simp
qed

lemma paste_cells_px:
  assumes "\<forall>cell \<in> set cells. fst cell < length tiles \<and> snd cell < length (tiles ! fst cell)"
    and "paste_cells tiles w h cells big = Inr big'"
  shows "im_px big' X Y =
     (case find (covers tiles w h X Y) (rev cells) of
        None \<Rightarrow> im_px big X Y
      | Some (row, col) \<Rightarrow> im_px (tiles ! row ! col) (X - col * w) (Y - row * h))"
  using assms
proof (induction cells arbitrary: big)
  case Nil
  then show ?case by simp
next
  case (Cons cell cells)
  obtain row col where c: "cell = (row, col)" by (cases cell)
  let ?b = "paste big (tiles ! row ! col) (int (col * w), int (row * h))"
  from Cons.prems(1) c have rng: "row < length tiles" "col < length (tiles ! row)" by simp_all
  from Cons.prems(1) have rest:
    "\<forall>cell \<in> set cells. fst cell < length tiles \<and> snd cell < length (tiles ! fst cell)"
    by simp
  from Cons.prems(2) c rng have "paste_cells tiles w h cells ?b = Inr big'" by simp
  from Cons.IH [OF rest this] have ih: "im_px big' X Y =
     (case find (covers tiles w h X Y) (rev cells) of
        None \<Rightarrow> im_px ?b X Y
      | Some (row, col) \<Rightarrow> im_px (tiles ! row ! col) (X - col * w) (Y - row * h))" .
  have p: "im_px ?b X Y =
     (if covers tiles w h X Y (row, col)
      then im_px (tiles ! row ! col) (X - col * w) (Y - row * h) else im_px big X Y)"
    unfolding paste_px_nat covers_def by simp
  show ?case
    unfolding ih p c by (simp add: find_append_case split: option.splits)
qed

lemma grid_cells_range:
  "cell \<in> set (grid_cells N) \<Longrightarrow> fst cell < N \<and> snd cell < N"
  by (auto simp: grid_cells_def)

text \<open>
  Claim C7, amended. \<^verbatim>\<open>stitch_tiles\<close> has no check of the tile sizes: for every full
  \<open>N \<times> N\<close> grid (\<open>N \<ge> 1\<close>), whatever the sizes of its tiles, it raises no error and
  returns a composite of \<open>N\<close> times the size \<open>(w0, h0)\<close> of the tile of cell \<open>(0, 0)\<close>.
  Every pixel of the composite shows the last tile, in row-major order, that lies over it
  when each tile is placed at \<open>(col * w0, row * h0)\<close>, and is black where no tile does.
\<close>

theorem stitch_tiles_no_size_check:
  assumes "0 < N" and "length tiles = N" and "\<forall>row<N. length (tiles ! row) = N"
  shows "\<exists>big. stitch_tiles (int N) tiles = Inr big
       \<and> im_w big = N * im_w (tiles ! 0 ! 0) \<and> im_h big = N * im_h (tiles ! 0 ! 0)
       \<and> (\<forall>X Y. im_px big X Y =
            (case find (covers tiles (im_w (tiles ! 0 ! 0)) (im_h (tiles ! 0 ! 0)) X Y)
                    (rev (grid_cells N)) of
               None \<Rightarrow> black
             | Some (row, col) \<Rightarrow>
                 im_px (tiles ! row ! col) (X - col * im_w (tiles ! 0 ! 0))
                   (Y - row * im_h (tiles ! 0 ! 0))))"
proof -
  let ?w = "im_w (tiles ! 0 ! 0)" and ?h = "im_h (tiles ! 0 ! 0)"
  let ?canvas = "\<lparr>im_w = N * ?w, im_h = N * ?h, im_px = (\<lambda>x y. black)\<rparr>"
  have rng: "\<forall>row \<in> set [0..<N]. row < length tiles
        \<and> (\<forall>col \<in> set [0..<N]. col < length (tiles ! row))"
    using assms(2,3) by simp
  from paste_rows_ok [OF rng, of ?w ?h ?canvas] obtain big where
    big: "paste_rows tiles ?w ?h [0..<N] [0..<N] ?canvas = Inr big"
      "im_w big = im_w ?canvas" "im_h big = im_h ?canvas" by blast
  have s: "stitch_tiles (int N) tiles = Inr big"
    using stitch_tiles_unfold(1) [OF assms] big(1) by simp
  have cells: "paste_cells tiles ?w ?h (grid_cells N) ?canvas = Inr big"
    using big(1) by (simp add: grid_cells_def paste_rows_cells)
  have r: "\<forall>cell \<in> set (grid_cells N).
      fst cell < length tiles \<and> snd cell < length (tiles ! fst cell)"
    using grid_cells_range [of _ N] assms(2,3) by auto
  have cb: "im_px ?canvas X Y = black" for X Y by simp
  have px: "im_px big X Y =
     (case find (covers tiles ?w ?h X Y) (rev (grid_cells N)) of
        None \<Rightarrow> black
      | Some (row, col) \<Rightarrow> im_px (tiles ! row ! col) (X - col * ?w) (Y - row * ?h))" for X Y
    using paste_cells_px [OF r cells, of X Y] unfolding cb .
  from s big(2,3) px show ?thesis by simp
qed

lemma grid_cells_2: "grid_cells 2 = [(0, 0), (0, Suc 0), (Suc 0, 0), (Suc 0, Suc 0)]"
  by (simp add: grid_cells_def upt_0_2)

theorem stitch_tiles_no_size_check_witness:
  "\<exists>big. stitch_tiles 2 mixed_grid = Inr big \<and> im_w big = 4 \<and> im_h big = 4
      \<and> im_px big 2 0 = green \<and> im_px big 3 0 = black \<and> im_px big 3 3 = white
      \<and> im_px big 1 3 = blue"
proof -
  have n: "(0::nat) < 2" by simp
  have l: "length mixed_grid = 2" by (simp add: mixed_grid_def)
  have r: "\<forall>row<2. length (mixed_grid ! row) = 2"
    by (simp add: all_less_2 mixed_grid_def)
  have w0: "im_w (mixed_grid ! 0 ! 0) = 2" "im_h (mixed_grid ! 0 ! 0) = 2"
    by (simp_all add: mixed_grid_def solid_def)
  from stitch_tiles_no_size_check [OF n l r, unfolded w0] obtain big where
    b: "stitch_tiles (int 2) mixed_grid = Inr big" "im_w big = 2 * 2" "im_h big = 2 * 2"
    and p: "\<And>X Y. im_px big X Y =
            (case find (covers mixed_grid 2 2 X Y) (rev (grid_cells 2)) of
               None \<Rightarrow> black
             | Some (row, col) \<Rightarrow> im_px (mixed_grid ! row ! col) (X - col * 2) (Y - row * 2))"
    by blast
  have p20: "im_px big 2 0 = green"
    unfolding p by (simp add: grid_cells_2 covers_def mixed_grid_def solid_def)
  have p30: "im_px big 3 0 = black"
    unfolding p by (simp add: grid_cells_2 covers_def mixed_grid_def solid_def)
  have p33: "im_px big 3 3 = white"
    unfolding p by (simp add: grid_cells_2 covers_def mixed_grid_def solid_def)
  have p13: "im_px big 1 3 = blue"
    unfolding p by (simp add: grid_cells_2 covers_def mixed_grid_def solid_def)
  from b p20 p30 p33 p13 show ?thesis by simp
qed

subsection \<open>Fetching\<close>

lemma try_urls_requests:
  "requests (fst (try_urls net cfg time_str row col bases prev w)) =
     requests w
       @ takeWhile (\<lambda>u. \<not> succeeded (net u)) (map (\<lambda>b. tile_url cfg time_str b row col) bases)
       @ take 1 (dropWhile (\<lambda>u. \<not> succeeded (net u))
                   (map (\<lambda>b. tile_url cfg time_str b row col) bases))"
proof (induction bases arbitrary: prev w)
  case Nil
  then show ?case by simp
next
  case (Cons base rest)
  show ?case
  proof (cases "net (tile_url cfg time_str base row col)")
    case (Failed e)
    then show ?thesis by (simp add: Cons.IH succeeded_def Let_def)
  next
    case (Undecodable e)
    then show ?thesis by (simp add: Cons.IH succeeded_def Let_def)
  next
    case (Tile img)
    then show ?thesis by (simp add: succeeded_def Let_def)
  qed
qed

lemma try_urls_all_fail:
  assumes "\<forall>b \<in> set bases. \<not> succeeded (net (tile_url cfg time_str b row col))"
  shows "snd (try_urls net cfg time_str row col bases prev w) =
     Inl (if bases = [] then prev
          else raised (net (tile_url cfg time_str (last bases) row col)))"
  using assms
proof (induction bases arbitrary: prev w)
  case Nil
  then show ?case by simp
next
  case (Cons base rest)
  from Cons.prems have r: "\<forall>b \<in> set rest. \<not> succeeded (net (tile_url cfg time_str b row col))"
    and b: "\<not> succeeded (net (tile_url cfg time_str base row col))" by simp_all
  show ?case
  proof (cases "net (tile_url cfg time_str base row col)")
    case (Failed e)
    then show ?thesis using Cons.IH [OF r] by (simp add: raised_def Let_def)
  next
    case (Undecodable e)
    then show ?thesis using Cons.IH [OF r] by (simp add: raised_def Let_def)
  next
    case (Tile img)
    with b show ?thesis by (simp add: succeeded_def)
  qed
qed

lemma try_urls_first_success:
  assumes "dropWhile (\<lambda>u. \<not> succeeded (net u))
             (map (\<lambda>b. tile_url cfg time_str b row col) bases) = u # us"
    and "net u = Tile img"
  shows "snd (try_urls net cfg time_str row col bases prev w) = Inr img"
  using assms(1)
proof (induction bases arbitrary: prev w)
  case Nil
  then show ?case by simp
next
  case (Cons base rest)
  show ?case
  proof (cases "net (tile_url cfg time_str base row col)")
    case (Failed e)
    with Cons.prems have "dropWhile (\<lambda>u. \<not> succeeded (net u))
             (map (\<lambda>b. tile_url cfg time_str b row col) rest) = u # us"
      by (simp add: succeeded_def)
    from Cons.IH [OF this] Failed show ?thesis by (simp add: Let_def)
  next
    case (Undecodable e)
    with Cons.prems have "dropWhile (\<lambda>u. \<not> succeeded (net u))
             (map (\<lambda>b. tile_url cfg time_str b row col) rest) = u # us"
      by (simp add: succeeded_def)
    from Cons.IH [OF this] Undecodable show ?thesis by (simp add: Let_def)
  next
    case (Tile img')
    with Cons.prems have "u = tile_url cfg time_str base row col"
      by (simp add: succeeded_def)
    with Tile assms(2) show ?thesis by (simp add: Let_def)
  qed
qed

lemma write_file_set: "set (write_file name dir) = insert name (set dir)"
  by (auto simp: write_file_def)

lemma try_urls_frame:
  "wallpaper (fst (try_urls net cfg time_str row col bases prev w)) = wallpaper w
   \<and> set (files w) \<subseteq> set (files (fst (try_urls net cfg time_str row col bases prev w)))
   \<and> set (files (fst (try_urls net cfg time_str row col bases prev w)))
        \<subseteq> insert (tile_name row col) (set (files w))"
proof (induction bases arbitrary: prev w)
  case Nil
  show ?case by auto
next
  case (Cons base rest)
  let ?w1 = "w\<lparr>requests := requests w @ [tile_url cfg time_str base row col]\<rparr>"
  let ?w2 = "?w1\<lparr>files := write_file (tile_name row col) (files ?w1)\<rparr>"
  show ?case
  proof (cases "net (tile_url cfg time_str base row col)")
    case (Failed e)
    with Cons.IH [of "Some e" ?w1] show ?thesis by (auto simp: Let_def)
  next
    case (Undecodable e)
    with Cons.IH [of "Some e" ?w2] show ?thesis
      by (auto simp: Let_def write_file_set)
  next
    case (Tile img)
    then show ?thesis by (auto simp: Let_def write_file_set)
  qed
qed

lemma tile_urls_map:
  "tile_urls cfg time_str row col = map (\<lambda>b. tile_url cfg time_str b row col) (BASE_URL cfg)"
  by (simp add: tile_urls_def tile_url_def)





subsection \<open>Composition\<close>

lemma py_int_floor: "1 \<le> floor_number p \<Longrightarrow> py_int p = floor_number p"
proof (cases p)
  case (PyInt n)
  then show ?thesis by (simp add: py_int_def floor_number_def)
next
  case (PyFloat f)
  assume a: "1 \<le> floor_number p"
  show ?thesis
  proof (cases "0 \<le> expo f \<or> 0 \<le> mant f")
    case True
    with PyFloat show ?thesis by (auto simp: py_int_def floor_number_def)
  next
    case False
    then have "mant f div 2 ^ nat (- expo f) < 0"
      by (simp add: pos_imp_zdiv_neg_iff)
    with a PyFloat False show ?thesis by (simp add: floor_number_def)
  qed
qed

lemma py_int_small: "floor_number p < 1 \<Longrightarrow> py_int p < 1"
proof (cases p)
  case (PyInt n)
  assume "floor_number p < 1"
  with PyInt show ?thesis by (simp add: py_int_def floor_number_def)
next
  case (PyFloat f)
  assume a: "floor_number p < 1"
  show ?thesis
  proof (cases "0 \<le> expo f \<or> 0 \<le> mant f")
    case True
    with PyFloat a show ?thesis by (auto simp: py_int_def floor_number_def)
  next
    case False
    then have "0 \<le> (- mant f) div 2 ^ nat (- expo f)"
      by (simp add: pos_imp_zdiv_nonneg_iff)
    with PyFloat False show ?thesis by (simp add: py_int_def)
  qed
qed

lemma resize_ok:
  assumes "1 \<le> t"
  shows "resize LANCZOS big_img (t, t) =
     Inr \<lparr>im_w = nat t, im_h = nat t,
          im_px = (if (int (im_w big_img), int (im_h big_img)) = (t, t) then im_px big_img
                   else LANCZOS big_img (nat t, nat t))\<rparr>"
proof (cases "(int (im_w big_img), int (im_h big_img)) = (t, t)")
  case True
  then have "big_img = \<lparr>im_w = nat t, im_h = nat t, im_px = im_px big_img\<rparr>" by auto
  with True show ?thesis by (simp add: resize_def)
next
  case False
  with assms show ?thesis by (auto simp: resize_def)
qed

lemma resize_small:
  assumes "t < 1" and "0 < im_w big_img"
  shows "resize LANCZOS big_img (t, t) = Inl ValueError"
  using assms by (simp add: resize_def)

lemma paste_px_black:
  assumes "0 \<le> t"
  shows "im_px (paste \<lparr>im_w = a, im_h = b, im_px = (\<lambda>x y. black)\<rparr>
              \<lparr>im_w = nat t, im_h = nat t, im_px = f\<rparr> (ox, oy)) x y =
     (if ox \<le> int x \<and> int x < ox + t \<and> oy \<le> int y \<and> int y < oy + t
      then f (nat (int x - ox)) (nat (int y - oy)) else black)"
proof -
  have e: "(0 \<le> int x - ox \<and> int x - ox < int (nat t) \<and> 0 \<le> int y - oy \<and> int y - oy < int (nat t))
      \<longleftrightarrow> (ox \<le> int x \<and> int x < ox + t \<and> oy \<le> int y \<and> int y < oy + t)"
    using assms by auto
  show ?thesis unfolding paste_def Let_def using e by simp
qed

lemma resize_and_center_unfold:
  assumes "0 \<le> W" and "0 \<le> H"
    and "mul_int_number (min W H) cover_ratio = Inr product"
    and "1 \<le> floor_number product"
  shows "resize_and_center LANCZOS big_img (W, H) cover_ratio =
     Inr (paste \<lparr>im_w = nat W, im_h = nat H, im_px = (\<lambda>x y. black)\<rparr>
            \<lparr>im_w = nat (floor_number product), im_h = nat (floor_number product),
             im_px = (if (int (im_w big_img), int (im_h big_img))
                          = (floor_number product, floor_number product)
                      then im_px big_img
                      else LANCZOS big_img (nat (floor_number product), nat (floor_number product)))\<rparr>
            ((W - floor_number product) div 2, (H - floor_number product) div 2))"
proof -
  have n: "Image_new (W, H) black = Inr \<lparr>im_w = nat W, im_h = nat H, im_px = (\<lambda>x y. black)\<rparr>"
    using assms(1,2) by (simp add: Image_new_def)
  show ?thesis
    unfolding resize_and_center_def
    by (simp add: assms(3) py_int_floor [OF assms(4)] n resize_ok [OF assms(4)] Let_def)
qed

lemma product_1080_0_9:
  "mul_int_number (min 1920 1080) (PyFloat float_0_9)
     = Inr (PyFloat \<lparr>mant = 8549802417586176, expo = - 43\<rparr>)"
  by code_simp

lemma floor_972: "floor_number (PyFloat \<lparr>mant = 8549802417586176, expo = - 43\<rparr>) = 972"
  by code_simp

lemma product_1080_1_5:
  "mul_int_number (min 1920 1080) (PyFloat float_1_5) = Inr (PyFloat \<lparr>mant = 3240, expo = - 1\<rparr>)"
  by code_simp

lemma floor_1620: "floor_number (PyFloat \<lparr>mant = 3240, expo = - 1\<rparr>) = 1620"
  by code_simp

lemma float_0_9_nearest: "\<bar>10 * mant float_0_9 - 9 * 2 ^ 53\<bar> \<le> 5 \<and> expo float_0_9 = - 53"
  by (simp add: float_0_9_def)

lemma canvas_px:
  assumes "0 \<le> W" and "0 \<le> H"
    and "mul_int_number (min W H) cover_ratio = Inr product"
    and "floor_number product = t" and "1 \<le> t"
  shows "\<exists>canvas. resize_and_center LANCZOS big_img (W, H) cover_ratio = Inr canvas
      \<and> im_w canvas = nat W \<and> im_h canvas = nat H
      \<and> (\<forall>x y. im_px canvas x y =
           (if (W - t) div 2 \<le> int x \<and> int x < (W - t) div 2 + t
               \<and> (H - t) div 2 \<le> int y \<and> int y < (H - t) div 2 + t
            then (if (int (im_w big_img), int (im_h big_img)) = (t, t) then im_px big_img
                  else LANCZOS big_img (nat t, nat t))
                   (nat (int x - (W - t) div 2)) (nat (int y - (H - t) div 2))
            else black))"
proof -
  from assms(4,5) have f: "1 \<le> floor_number product" by simp
  from assms(5) have t0: "0 \<le> t" by simp
  let ?f = "if (int (im_w big_img), int (im_h big_img)) = (t, t) then im_px big_img
            else LANCZOS big_img (nat t, nat t)"
  let ?canvas = "paste \<lparr>im_w = nat W, im_h = nat H, im_px = (\<lambda>x y. black)\<rparr>
            \<lparr>im_w = nat t, im_h = nat t, im_px = ?f\<rparr> ((W - t) div 2, (H - t) div 2)"
  have r: "resize_and_center LANCZOS big_img (W, H) cover_ratio = Inr ?canvas"
    using resize_and_center_unfold [OF assms(1,2,3) f, of LANCZOS big_img] unfolding assms(4) .
  have s: "im_w ?canvas = nat W" "im_h ?canvas = nat H" by simp_all
  have p: "\<forall>x y. im_px ?canvas x y =
           (if (W - t) div 2 \<le> int x \<and> int x < (W - t) div 2 + t
               \<and> (H - t) div 2 \<le> int y \<and> int y < (H - t) div 2 + t
            then ?f (nat (int x - (W - t) div 2)) (nat (int y - (H - t) div 2))
            else black)"
    by (intro allI) (rule paste_px_black [OF t0])
  from r s p show ?thesis by blast
qed

text \<open>
  Claim C6. For every composite, every canvas size \<open>W, H \<ge> 0\<close> and every cover ratio for
  which the target size \<open>t\<close>, the floor of the product of \<open>min W H\<close> and the ratio, is at
  least 1, \<^verbatim>\<open>resize_and_center\<close> returns a \<open>W \<times> H\<close> canvas that is black except for the
  square of side \<open>t\<close> whose upper left corner is at \<open>((W - t) div 2, (H - t) div 2)\<close>, with
  floor division; the square holds the composite resized to \<open>t \<times> t\<close> (the composite itself
  when it has that size already). For the canvas \<open>1920 \<times> 1080\<close> and the ratio \<^verbatim>\<open>0.9\<close>, the
  float nearest to \<open>9 / 10\<close>, the product is the float \<open>972\<close>, so the target size is \<open>972\<close>
  and the corner is at \<open>(474, 54)\<close>.
\<close>

theorem resize_and_center_centred:
  "(0 \<le> W \<and> 0 \<le> H \<and> mul_int_number (min W H) cover_ratio = Inr product
      \<and> floor_number product = t \<and> 1 \<le> t
    \<longrightarrow> (\<exists>canvas. resize_and_center LANCZOS big_img (W, H) cover_ratio = Inr canvas
          \<and> im_w canvas = nat W \<and> im_h canvas = nat H
          \<and> (\<forall>x y. im_px canvas x y =
               (if (W - t) div 2 \<le> int x \<and> int x < (W - t) div 2 + t
                   \<and> (H - t) div 2 \<le> int y \<and> int y < (H - t) div 2 + t
                then (if (int (im_w big_img), int (im_h big_img)) = (t, t) then im_px big_img
                      else LANCZOS big_img (nat t, nat t))
                       (nat (int x - (W - t) div 2)) (nat (int y - (H - t) div 2))
                else black))))
   \<and> \<bar>10 * mant float_0_9 - 9 * 2 ^ 53\<bar> \<le> 5 \<and> expo float_0_9 = - 53
   \<and> mul_int_number (min 1920 1080) (PyFloat float_0_9)
        = Inr (PyFloat \<lparr>mant = 972 * 2 ^ 43, expo = - 43\<rparr>)
   \<and> (\<exists>canvas. resize_and_center LANCZOS big_img (1920, 1080) (PyFloat float_0_9) = Inr canvas
          \<and> im_w canvas = 1920 \<and> im_h canvas = 1080
          \<and> (\<forall>x y. im_px canvas x y =
               (if 474 \<le> x \<and> x < 474 + 972 \<and> 54 \<le> y \<and> y < 54 + 972
                then (if (im_w big_img, im_h big_img) = (972, 972) then im_px big_img
                      else LANCZOS big_img (972, 972)) (x - 474) (y - 54)
                else black)))"
proof (intro conjI impI)
  assume a: "0 \<le> W \<and> 0 \<le> H \<and> mul_int_number (min W H) cover_ratio = Inr product
      \<and> floor_number product = t \<and> 1 \<le> t"
  then have "0 \<le> W" "0 \<le> H" "mul_int_number (min W H) cover_ratio = Inr product"
    "floor_number product = t" "1 \<le> t" by simp_all
  then show "\<exists>canvas. resize_and_center LANCZOS big_img (W, H) cover_ratio = Inr canvas
          \<and> im_w canvas = nat W \<and> im_h canvas = nat H
          \<and> (\<forall>x y. im_px canvas x y =
               (if (W - t) div 2 \<le> int x \<and> int x < (W - t) div 2 + t
                   \<and> (H - t) div 2 \<le> int y \<and> int y < (H - t) div 2 + t
                then (if (int (im_w big_img), int (im_h big_img)) = (t, t) then im_px big_img
                      else LANCZOS big_img (nat t, nat t))
                       (nat (int x - (W - t) div 2)) (nat (int y - (H - t) div 2))
                else black))"
    by (rule canvas_px)
next
  show "\<bar>10 * mant float_0_9 - 9 * 2 ^ 53\<bar> \<le> 5" "expo float_0_9 = - 53"
    using float_0_9_nearest by simp_all
next
  show p: "mul_int_number (min 1920 1080) (PyFloat float_0_9)
        = Inr (PyFloat \<lparr>mant = 972 * 2 ^ 43, expo = - 43\<rparr>)"
    using product_1080_0_9 by simp
next
  have f: "floor_number (PyFloat \<lparr>mant = 8549802417586176, expo = - 43\<rparr>) = 972"
    by (rule floor_972)
  from canvas_px [of 1920 1080 "PyFloat float_0_9" _ 972 LANCZOS big_img,
      OF _ _ product_1080_0_9 f]
  obtain canvas where c: "resize_and_center LANCZOS big_img (1920, 1080) (PyFloat float_0_9)
        = Inr canvas" "im_w canvas = nat 1920" "im_h canvas = nat 1080"
    and px: "\<And>x y. im_px canvas x y =
           (if (1920 - 972) div 2 \<le> int x \<and> int x < (1920 - 972) div 2 + 972
               \<and> (1080 - 972) div 2 \<le> int y \<and> int y < (1080 - 972) div 2 + 972
            then (if (int (im_w big_img), int (im_h big_img)) = (972, 972) then im_px big_img
                  else LANCZOS big_img (nat 972, nat 972))
                   (nat (int x - (1920 - 972) div 2)) (nat (int y - (1080 - 972) div 2))
            else black)"
    by auto
  have q: "im_px canvas x y =
               (if 474 \<le> x \<and> x < 474 + 972 \<and> 54 \<le> y \<and> y < 54 + 972
                then (if (im_w big_img, im_h big_img) = (972, 972) then im_px big_img
                      else LANCZOS big_img (972, 972)) (x - 474) (y - 54)
                else black)" for x y
  proof -
    have o: "(1920 - 972) div 2 = (474::int)" "(1080 - 972) div 2 = (54::int)" by simp_all
    have n: "nat (int x - 474) = x - 474" "nat (int y - 54) = y - 54" by simp_all
    have r: "(474 \<le> int x \<and> int x < 474 + 972 \<and> 54 \<le> int y \<and> int y < 54 + 972)
        \<longleftrightarrow> (474 \<le> x \<and> x < 474 + 972 \<and> 54 \<le> y \<and> y < 54 + 972)" by auto
    have e: "((int (im_w big_img), int (im_h big_img)) = (972, 972))
        \<longleftrightarrow> ((im_w big_img, im_h big_img) = (972, 972))" by auto
    have m: "nat 972 = (972::nat)" by simp
    show ?thesis unfolding px o n r e m ..
  qed
  from c q show "\<exists>canvas. resize_and_center LANCZOS big_img (1920, 1080) (PyFloat float_0_9)
          = Inr canvas
          \<and> im_w canvas = 1920 \<and> im_h canvas = 1080
          \<and> (\<forall>x y. im_px canvas x y =
               (if 474 \<le> x \<and> x < 474 + 972 \<and> 54 \<le> y \<and> y < 54 + 972
                then (if (im_w big_img, im_h big_img) = (972, 972) then im_px big_img
                      else LANCZOS big_img (972, 972)) (x - 474) (y - 54)
                else black))"
    by simp
qed

lemma product_600_half:
  "mul_int_number (min 800 600) (PyFloat \<lparr>mant = 1, expo = - 1\<rparr>)
     = Inr (PyFloat \<lparr>mant = 600, expo = - 1\<rparr>)"
  by code_simp

lemma floor_300: "floor_number (PyFloat \<lparr>mant = 600, expo = - 1\<rparr>) = 300"
  by code_simp

theorem resize_and_center_centred_witness:
  "\<forall>LANCZOS big_img. \<exists>canvas.
      resize_and_center LANCZOS big_img (800, 600) (PyFloat \<lparr>mant = 1, expo = - 1\<rparr>) = Inr canvas
      \<and> im_w canvas = 800 \<and> im_h canvas = 600
      \<and> im_px canvas 249 150 = black
      \<and> im_px canvas 250 150 =
          (if (int (im_w big_img), int (im_h big_img)) = (300, 300) then im_px big_img
           else LANCZOS big_img (300, 300)) 0 0"
proof (intro allI)
  fix LANCZOS :: "image \<Rightarrow> nat \<times> nat \<Rightarrow> nat \<Rightarrow> nat \<Rightarrow> rgb" and big_img :: image
  have h: "(0::int) \<le> 800 \<and> (0::int) \<le> 600
      \<and> mul_int_number (min 800 600) (PyFloat \<lparr>mant = 1, expo = - 1\<rparr>)
          = Inr (PyFloat \<lparr>mant = 600, expo = - 1\<rparr>)
      \<and> floor_number (PyFloat \<lparr>mant = 600, expo = - 1\<rparr>) = 300 \<and> (1::int) \<le> 300"
    using product_600_half floor_300 by simp
  from resize_and_center_centred [of 800 600 "PyFloat \<lparr>mant = 1, expo = - 1\<rparr>"
      "PyFloat \<lparr>mant = 600, expo = - 1\<rparr>" 300 LANCZOS big_img, THEN conjunct1, rule_format, OF h]
  obtain canvas where c: "resize_and_center LANCZOS big_img (800, 600)
        (PyFloat \<lparr>mant = 1, expo = - 1\<rparr>) = Inr canvas" "im_w canvas = nat 800"
      "im_h canvas = nat 600"
    and px: "\<And>x y. im_px canvas x y =
           (if (800 - 300) div 2 \<le> int x \<and> int x < (800 - 300) div 2 + 300
               \<and> (600 - 300) div 2 \<le> int y \<and> int y < (600 - 300) div 2 + 300
            then (if (int (im_w big_img), int (im_h big_img)) = (300, 300) then im_px big_img
                  else LANCZOS big_img (nat 300, nat 300))
                   (nat (int x - (800 - 300) div 2)) (nat (int y - (600 - 300) div 2))
            else black)"
    by auto
  have p1: "im_px canvas 249 150 = black" unfolding px by simp
  have p2: "im_px canvas 250 150 =
          (if (int (im_w big_img), int (im_h big_img)) = (300, 300) then im_px big_img
           else LANCZOS big_img (300, 300)) 0 0" unfolding px by simp
  from c p1 p2 show "\<exists>canvas.
      resize_and_center LANCZOS big_img (800, 600) (PyFloat \<lparr>mant = 1, expo = - 1\<rparr>) = Inr canvas
      \<and> im_w canvas = 800 \<and> im_h canvas = 600
      \<and> im_px canvas 249 150 = black
      \<and> im_px canvas 250 150 =
          (if (int (im_w big_img), int (im_h big_img)) = (300, 300) then im_px big_img
           else LANCZOS big_img (300, 300)) 0 0"
    by simp
qed

lemma resize_and_center_small:
  assumes "0 \<le> W" and "0 \<le> H"
    and "mul_int_number (min W H) cover_ratio = Inr product"
    and "floor_number product < 1" and "0 < im_w big_img"
  shows "resize_and_center LANCZOS big_img (W, H) cover_ratio = Inl ValueError"
proof -
  have n: "Image_new (W, H) black = Inr \<lparr>im_w = nat W, im_h = nat H, im_px = (\<lambda>x y. black)\<rparr>"
    using assms(1,2) by (simp add: Image_new_def)
  have r: "resize LANCZOS big_img (py_int product, py_int product) = Inl ValueError"
    using py_int_small [OF assms(4)] assms(5) by (rule resize_small)
  show ?thesis
    unfolding resize_and_center_def by (simp add: assms(3) n r Let_def)
qed

text \<open>
  Claim C9 fails: \<^verbatim>\<open>resize_and_center\<close> has no check of the cover ratio. With the ratio
  \<^verbatim>\<open>1.5\<close>, which is above 1, and the canvas \<open>1920 \<times> 1080\<close> it returns a canvas, for every
  composite.
\<close>

theorem cover_ratio_above_one_accepted:
  "mant float_1_5 = 3 \<and> expo float_1_5 = - 1
   \<and> (\<forall>LANCZOS big_img. \<exists>canvas.
        resize_and_center LANCZOS big_img (1920, 1080) (PyFloat float_1_5) = Inr canvas
        \<and> im_w canvas = 1920 \<and> im_h canvas = 1080)"
proof (intro conjI allI)
  show "mant float_1_5 = 3" "expo float_1_5 = - 1" by (simp_all add: float_1_5_def)
next
  fix LANCZOS :: "image \<Rightarrow> nat \<times> nat \<Rightarrow> nat \<Rightarrow> nat \<Rightarrow> rgb" and big_img :: image
  have f: "1 \<le> floor_number (PyFloat \<lparr>mant = 3240, expo = - 1\<rparr>)"
    unfolding floor_1620 by simp
  show "\<exists>canvas. resize_and_center LANCZOS big_img (1920, 1080) (PyFloat float_1_5) = Inr canvas
        \<and> im_w canvas = 1920 \<and> im_h canvas = 1080"
    unfolding resize_and_center_unfold [of 1920 1080, OF _ _ product_1080_1_5 f, simplified]
    by simp
qed

text \<open>
  Claim C9, amended. The cover ratio is not checked against \<open>(0, 1]\<close>; what decides is the
  target size, the floor of the product of \<open>min W H\<close> and the ratio. For every canvas size
  \<open>W, H \<ge> 0\<close> and every ratio, whether inside \<open>(0, 1]\<close> or not, a target size of at least 1
  gives a \<open>W \<times> H\<close> canvas, and a target size below 1 makes the resize of a composite that
  is not empty raise \<^verbatim>\<open>ValueError\<close>.
\<close>

theorem resize_and_center_no_range_check:
  assumes "0 \<le> W" and "0 \<le> H"
    and "mul_int_number (min W H) cover_ratio = Inr product"
  shows "(1 \<le> floor_number product \<longrightarrow>
            (\<exists>canvas. resize_and_center LANCZOS big_img (W, H) cover_ratio = Inr canvas
               \<and> im_w canvas = nat W \<and> im_h canvas = nat H))
       \<and> (floor_number product < 1 \<and> 0 < im_w big_img \<longrightarrow>
            resize_and_center LANCZOS big_img (W, H) cover_ratio = Inl ValueError)"
proof (intro conjI impI)
  assume f: "1 \<le> floor_number product"
  show "\<exists>canvas. resize_and_center LANCZOS big_img (W, H) cover_ratio = Inr canvas
               \<and> im_w canvas = nat W \<and> im_h canvas = nat H"
    unfolding resize_and_center_unfold [OF assms f] by simp
next
  assume "floor_number product < 1 \<and> 0 < im_w big_img"
  then have "floor_number product < 1" "0 < im_w big_img" by simp_all
  with assms show "resize_and_center LANCZOS big_img (W, H) cover_ratio = Inl ValueError"
    by (rule resize_and_center_small)
qed

lemma product_1080_2: "mul_int_number (min 1920 1080) (PyInt 2) = Inr (PyInt 2160)"
  by (simp add: mul_int_number_def)

lemma product_1080_0: "mul_int_number (min 1920 1080) (PyInt 0) = Inr (PyInt 0)"
  by (simp add: mul_int_number_def)

theorem resize_and_center_no_range_check_witness:
  "(\<forall>LANCZOS big_img. \<exists>canvas.
      resize_and_center LANCZOS big_img (1920, 1080) (PyInt 2) = Inr canvas
      \<and> im_w canvas = 1920 \<and> im_h canvas = 1080)
   \<and> (\<forall>LANCZOS. resize_and_center LANCZOS (solid 4 4 red) (1920, 1080) (PyInt 0)
        = Inl ValueError)"
proof (intro conjI allI)
  fix LANCZOS :: "image \<Rightarrow> nat \<times> nat \<Rightarrow> nat \<Rightarrow> nat \<Rightarrow> rgb" and big_img :: image
  have z: "(0::int) \<le> 1920" "(0::int) \<le> 1080" by simp_all
  have f: "1 \<le> floor_number (PyInt 2160)" by (simp add: floor_number_def)
  from resize_and_center_no_range_check [OF z product_1080_2, of LANCZOS big_img,
      THEN conjunct1, rule_format, OF f]
  show "\<exists>canvas. resize_and_center LANCZOS big_img (1920, 1080) (PyInt 2) = Inr canvas
      \<and> im_w canvas = 1920 \<and> im_h canvas = 1080"
    by simp
next
  fix LANCZOS :: "image \<Rightarrow> nat \<times> nat \<Rightarrow> nat \<Rightarrow> nat \<Rightarrow> rgb"
  have z: "(0::int) \<le> 1920" "(0::int) \<le> 1080" by simp_all
  have f: "floor_number (PyInt 0) < 1 \<and> 0 < im_w (solid 4 4 red)"
    by (simp add: floor_number_def solid_def)
  from resize_and_center_no_range_check [OF z product_1080_0, of LANCZOS "solid 4 4 red",
      THEN conjunct2, rule_format, OF f]
  show "resize_and_center LANCZOS (solid 4 4 red) (1920, 1080) (PyInt 0) = Inl ValueError" .
qed

subsection \<open>A failed cell ends the run\<close>

lemma download_tile_fst:
  "fst (download_tile net cfg time_str row col w)
     = fst (try_urls net cfg time_str row col (BASE_URL cfg) None w)"
proof -
  obtain w' r where t: "try_urls net cfg time_str row col (BASE_URL cfg) None w = (w', r)"
    by (cases "try_urls net cfg time_str row col (BASE_URL cfg) None w")
  show ?thesis unfolding download_tile_def t by (cases r) simp_all
qed

lemma download_tile_requests:
  "requests (fst (download_tile net cfg time_str row col w))
     = requests w @ cell_requests net cfg time_str (row, col)"
  unfolding download_tile_fst cell_requests_def tile_urls_map
  by (simp add: try_urls_requests)

lemma download_tile_frame:
  "wallpaper (fst (download_tile net cfg time_str row col w)) = wallpaper w
   \<and> set (files w) \<subseteq> set (files (fst (download_tile net cfg time_str row col w)))
   \<and> set (files (fst (download_tile net cfg time_str row col w)))
        \<subseteq> insert (tile_name row col) (set (files w))"
  unfolding download_tile_fst by (rule try_urls_frame)

lemma download_tile_fails:
  assumes "cell_fails net cfg time_str (row, col)"
  shows "snd (download_tile net cfg time_str row col w) =
     Inl (RuntimeError
           (''Failed to download tile ('' @ show_nat col @ '','' @ show_nat row
              @ '') from all URLs'')
           (if tile_urls cfg time_str row col = [] then None
            else raised (net (last (tile_urls cfg time_str row col)))))"
proof -
  let ?t = "try_urls net cfg time_str row col (BASE_URL cfg) None w"
  obtain w' r where t: "?t = (w', r)" by (cases ?t)
  from assms have "\<forall>b \<in> set (BASE_URL cfg). \<not> succeeded (net (tile_url cfg time_str b row col))"
    unfolding cell_fails_def tile_urls_map by (simp add: list_all_iff)
  then have "snd ?t = Inl (if BASE_URL cfg = [] then None
                  else raised (net (tile_url cfg time_str (last (BASE_URL cfg)) row col)))"
    by (rule try_urls_all_fail)
  moreover have "BASE_URL cfg \<noteq> [] \<Longrightarrow>
      last (tile_urls cfg time_str row col) = tile_url cfg time_str (last (BASE_URL cfg)) row col"
    unfolding tile_urls_map by (simp add: last_map)
  moreover have "tile_urls cfg time_str row col = [] \<longleftrightarrow> BASE_URL cfg = []"
    unfolding tile_urls_map by simp
  ultimately have "snd ?t = Inl (if tile_urls cfg time_str row col = [] then None
                   else raised (net (last (tile_urls cfg time_str row col))))"
    by simp
  then show ?thesis unfolding download_tile_def t by simp
qed

lemma download_tile_succeeds:
  assumes "\<not> cell_fails net cfg time_str (row, col)"
  shows "\<exists>img. snd (download_tile net cfg time_str row col w) = Inr img"
proof -
  let ?t = "try_urls net cfg time_str row col (BASE_URL cfg) None w"
  let ?P = "\<lambda>u. \<not> succeeded (net u)"
  let ?urls = "map (\<lambda>b. tile_url cfg time_str b row col) (BASE_URL cfg)"
  obtain w' r where t: "?t = (w', r)" by (cases ?t)
  from assms have "\<not> (\<forall>u \<in> set ?urls. ?P u)"
    unfolding cell_fails_def tile_urls_map by (simp add: list_all_iff)
  then have ne: "dropWhile ?P ?urls \<noteq> []" unfolding dropWhile_eq_Nil_conv .
  then obtain u us where d: "dropWhile ?P ?urls = u # us" by (cases "dropWhile ?P ?urls") auto
  from hd_dropWhile [OF ne] d have "succeeded (net u)" by simp
  then obtain img where "net u = Tile img" by (cases "net u") (simp_all add: succeeded_def)
  with d have "snd ?t = Inr img" by (rule try_urls_first_success)
  then show ?thesis unfolding download_tile_def t by simp
qed

lemma download_cells_append:
  "download_cells net cfg time_str (xs @ ys) w =
     (case download_cells net cfg time_str xs w of
        (w', Some e) \<Rightarrow> (w', Some e)
      | (w', None) \<Rightarrow> download_cells net cfg time_str ys w')"
proof (induction xs arbitrary: w)
  case Nil
  show ?case by simp
next
  case (Cons cell xs)
  obtain row col where c: "cell = (row, col)" by (cases cell)
  obtain w1 r where d: "download_tile net cfg time_str row col w = (w1, r)"
    by (cases "download_tile net cfg time_str row col w")
  show ?case unfolding c by (cases r) (simp_all add: d Cons.IH)
qed

lemma failure_simps: "failure (Inl e) = Some e" "failure (Inr x) = None"
  by (simp_all add: failure_def)

lemma download_row_cells:
  "fst (download_row net cfg time_str row cols row_tiles w)
     = fst (download_cells net cfg time_str (map (\<lambda>col. (row, col)) cols) w)
   \<and> failure (snd (download_row net cfg time_str row cols row_tiles w))
     = snd (download_cells net cfg time_str (map (\<lambda>col. (row, col)) cols) w)"
proof (induction cols arbitrary: row_tiles w)
  case Nil
  show ?case by (simp add: failure_simps)
next
  case (Cons col cols)
  obtain w1 r where d: "download_tile net cfg time_str row col w = (w1, r)"
    by (cases "download_tile net cfg time_str row col w")
  show ?case
  proof (cases r)
    case (Inl e)
    then show ?thesis by (simp add: d failure_simps)
  next
    case (Inr img)
    then show ?thesis using Cons.IH [of "row_tiles @ [img]" w1] by (simp add: d)
  qed
qed

lemma download_rows_cells:
  "fst (download_rows net cfg time_str rows cols tiles w)
     = fst (download_cells net cfg time_str
         (concat (map (\<lambda>row. map (\<lambda>col. (row, col)) cols) rows)) w)
   \<and> failure (snd (download_rows net cfg time_str rows cols tiles w))
     = snd (download_cells net cfg time_str
         (concat (map (\<lambda>row. map (\<lambda>col. (row, col)) cols) rows)) w)"
proof (induction rows arbitrary: tiles w)
  case Nil
  show ?case by (simp add: failure_simps)
next
  case (Cons row rows)
  obtain w1 r where d: "download_row net cfg time_str row cols [] w = (w1, r)"
    by (cases "download_row net cfg time_str row cols [] w")
  have c: "download_cells net cfg time_str (map (\<lambda>col. (row, col)) cols) w = (w1, failure r)"
    using download_row_cells [of net cfg time_str row cols "[]" w] unfolding d
    by (cases "download_cells net cfg time_str (map (\<lambda>col. (row, col)) cols) w") simp
  show ?case
  proof (cases r)
    case (Inl e)
    then show ?thesis by (simp add: d c download_cells_append failure_simps)
  next
    case (Inr row_tiles)
    then show ?thesis using Cons.IH [of "tiles @ [row_tiles]" w1]
      by (simp add: d c download_cells_append failure_simps)
  qed
qed

lemma download_tiles_cells:
  "fst (download_tiles net cfg time_str w)
     = fst (download_cells net cfg time_str (grid_cells (nat (ND cfg))) w)
   \<and> failure (snd (download_tiles net cfg time_str w))
     = snd (download_cells net cfg time_str (grid_cells (nat (ND cfg))) w)"
  unfolding download_tiles_def grid_cells_def by (rule download_rows_cells)

lemma download_cells_first_failure:
  assumes "\<forall>cell \<in> set before. \<not> cell_fails net cfg time_str cell"
    and "cell_fails net cfg time_str (row, col)"
  shows "\<exists>w'. download_cells net cfg time_str (before @ (row, col) # rest) w =
        (w', Some (RuntimeError
           (''Failed to download tile ('' @ show_nat col @ '','' @ show_nat row
              @ '') from all URLs'')
           (if tile_urls cfg time_str row col = [] then None
            else raised (net (last (tile_urls cfg time_str row col))))))
     \<and> requests w' = requests w
          @ concat (map (cell_requests net cfg time_str) (before @ [(row, col)]))
     \<and> wallpaper w' = wallpaper w
     \<and> set (files w) \<subseteq> set (files w')
     \<and> set (files w') \<subseteq> set (files w) \<union> (\<lambda>(r, c). tile_name r c) ` set (before @ [(row, col)])"
  using assms(1)
proof (induction before arbitrary: w)
  case Nil
  obtain w1 r where d: "download_tile net cfg time_str row col w = (w1, r)"
    by (cases "download_tile net cfg time_str row col w")
  from download_tile_fails [OF assms(2), of w] d
  have r: "r = Inl (RuntimeError
           (''Failed to download tile ('' @ show_nat col @ '','' @ show_nat row
              @ '') from all URLs'')
           (if tile_urls cfg time_str row col = [] then None
            else raised (net (last (tile_urls cfg time_str row col)))))" by simp
  from download_tile_requests [of net cfg time_str row col w] d
  have q: "requests w1 = requests w @ cell_requests net cfg time_str (row, col)" by simp
  from download_tile_frame [of net cfg time_str row col w] d
  have f: "wallpaper w1 = wallpaper w" "set (files w) \<subseteq> set (files w1)"
    "set (files w1) \<subseteq> insert (tile_name row col) (set (files w))" by simp_all
  show ?case using q f by (simp add: d r) 
next
  case (Cons cell before)
  obtain r0 c0 where c: "cell = (r0, c0)" by (cases cell)
  obtain w1 r where d: "download_tile net cfg time_str r0 c0 w = (w1, r)"
    by (cases "download_tile net cfg time_str r0 c0 w")
  from Cons.prems c have ok: "\<not> cell_fails net cfg time_str (r0, c0)"
    and rest: "\<forall>cell \<in> set before. \<not> cell_fails net cfg time_str cell" by simp_all
  from download_tile_succeeds [OF ok, of w] d obtain img where r: "r = Inr img" by auto
  from download_tile_requests [of net cfg time_str r0 c0 w] d
  have q: "requests w1 = requests w @ cell_requests net cfg time_str (r0, c0)" by simp
  from download_tile_frame [of net cfg time_str r0 c0 w] d
  have f: "wallpaper w1 = wallpaper w" "set (files w) \<subseteq> set (files w1)"
    "set (files w1) \<subseteq> insert (tile_name r0 c0) (set (files w))" by simp_all
  from Cons.IH [OF rest, of w1] obtain w' where
    w': "download_cells net cfg time_str (before @ (row, col) # rest) w1 =
        (w', Some (RuntimeError
           (''Failed to download tile ('' @ show_nat col @ '','' @ show_nat row
              @ '') from all URLs'')
           (if tile_urls cfg time_str row col = [] then None
            else raised (net (last (tile_urls cfg time_str row col))))))"
      "requests w' = requests w1
          @ concat (map (cell_requests net cfg time_str) (before @ [(row, col)]))"
      "wallpaper w' = wallpaper w1"
      "set (files w1) \<subseteq> set (files w')"
      "set (files w') \<subseteq> set (files w1) \<union> (\<lambda>(r, c). tile_name r c) ` set (before @ [(row, col)])"
    by blast
  have 1: "download_cells net cfg time_str ((cell # before) @ (row, col) # rest) w =
        (w', Some (RuntimeError
           (''Failed to download tile ('' @ show_nat col @ '','' @ show_nat row
              @ '') from all URLs'')
           (if tile_urls cfg time_str row col = [] then None
            else raised (net (last (tile_urls cfg time_str row col))))))"
    using w'(1) by (simp add: c d r)
  have 2: "requests w' = requests w
          @ concat (map (cell_requests net cfg time_str) ((cell # before) @ [(row, col)]))"
    using w'(2) q by (simp add: c)
  have 3: "wallpaper w' = wallpaper w" using w'(3) f(1) by simp
  have 4: "set (files w) \<subseteq> set (files w')" using w'(4) f(2) by blast
  have 5: "set (files w') \<subseteq> set (files w)
      \<union> (\<lambda>(r, c). tile_name r c) ` set ((cell # before) @ [(row, col)])"
    using w'(5) f(3) unfolding c by auto
  from 1 2 3 4 5 show ?case by blast
qed

lemma find_first_split:
  "find P xs = Some x \<Longrightarrow>
     xs = takeWhile (\<lambda>y. \<not> P y) xs @ x # tl (dropWhile (\<lambda>y. \<not> P y) xs) \<and> P x"
  by (induction xs) (auto split: if_splits)

lemma show_int_no_t: "CHR ''t'' \<notin> set (show_int i)"
proof
  assume a: "CHR ''t'' \<in> set (show_int i)"
  have "CHR ''t'' = CHR ''-'' \<or> CHR ''t'' \<in> set (show_nat (nat (- i)))
      \<or> CHR ''t'' \<in> set (show_nat (nat i))"
    using a by (auto simp: show_int_def split: if_splits)
  then have "is_digit CHR ''t''" using show_nat_digits by auto
  then show False by (simp add: is_digit_def)
qed

lemma artifact_not_tile: "artifact_name nd sz dt \<noteq> tile_name r c"
proof
  assume "artifact_name nd sz dt = tile_name r c"
  then have "hd (artifact_name nd sz dt) = CHR ''t''" by (simp add: tile_name_def)
  moreover have "hd (artifact_name nd sz dt) = hd (show_int nd)"
    using show_int_nonempty [of nd] by (simp add: artifact_name_def)
  moreover have "hd (show_int nd) \<in> set (show_int nd)"
    using show_int_nonempty [of nd] by simp
  ultimately show False using show_int_no_t [of nd] by simp
qed

lemma cell_requests_failed:
  assumes "cell_fails net cfg time_str (row, col)"
  shows "cell_requests net cfg time_str (row, col) = tile_urls cfg time_str row col"
proof -
  from assms have a: "\<forall>u \<in> set (tile_urls cfg time_str row col). \<not> succeeded (net u)"
    by (simp add: cell_fails_def list_all_iff)
  have t: "takeWhile (\<lambda>u. \<not> succeeded (net u)) (tile_urls cfg time_str row col)
      = tile_urls cfg time_str row col"
    using a by (simp only: takeWhile_eq_all_conv)
  have d: "dropWhile (\<lambda>u. \<not> succeeded (net u)) (tile_urls cfg time_str row col) = []"
    using a by (simp only: dropWhile_eq_Nil_conv)
  show ?thesis unfolding cell_requests_def prod.case t d by simp
qed

lemma failure_Some: "failure r = Some e \<Longrightarrow> r = Inl e"
  by (cases r) (simp_all add: failure_def)

text \<open>
  Claim C2. Let the clock give an aligned time and let \<open>(row, col)\<close> be the first cell, in
  row-major order, none of whose mirrors succeeds. Then \<^verbatim>\<open>main\<close> ends with the
  \<^verbatim>\<open>RuntimeError\<close> of that cell, which \<^verbatim>\<open>download_tiles\<close> raises and nothing catches. It
  fails at once: the requests of the run are those of the cells before \<open>(row, col)\<close>
  followed by the URLs of \<open>(row, col)\<close>, and no cell after it is requested. No tile matrix
  is returned, so nothing is stitched or composed; \<^verbatim>\<open>set_wallpaper\<close> is not called; the
  directory holds what the pruning left, which stays as pruned, and besides that only tile
  files of the cells up to \<open>(row, col)\<close>: no file with the name of an artifact is added.
\<close>

theorem main_aborts_on_failed_cell:
  assumes "get_aligned_time now1 (DELAY_MINUTES cfg) (UPDATE_INTERVAL_MINUTES cfg) = Inr aligned"
    and "find (cell_fails net cfg (strftime_path aligned)) (grid_cells (nat (ND cfg)))
           = Some (row, col)"
  shows "\<exists>w'. main net LANCZOS cfg now1 now2 w =
        (w', Inl (RuntimeError
           (''Failed to download tile ('' @ show_nat col @ '','' @ show_nat row
              @ '') from all URLs'')
           (if tile_urls cfg (strftime_path aligned) row col = [] then None
            else raised (net (last (tile_urls cfg (strftime_path aligned) row col))))))
     \<and> requests w' = requests w
          @ concat (map (cell_requests net cfg (strftime_path aligned))
                      (takeWhile (\<lambda>c. \<not> cell_fails net cfg (strftime_path aligned) c)
                         (grid_cells (nat (ND cfg)))))
          @ tile_urls cfg (strftime_path aligned) row col
     \<and> wallpaper w' = wallpaper w
     \<and> set (clean_old_images (files w) (MAX_PIC cfg)) \<subseteq> set (files w')
     \<and> set (files w') \<subseteq> set (clean_old_images (files w) (MAX_PIC cfg))
          \<union> (\<lambda>(r, c). tile_name r c) `
              set (takeWhile (\<lambda>c. \<not> cell_fails net cfg (strftime_path aligned) c)
                     (grid_cells (nat (ND cfg))) @ [(row, col)])
     \<and> (\<forall>nd sz dt. artifact_name nd sz dt \<in> set (files w')
          \<longrightarrow> artifact_name nd sz dt \<in> set (clean_old_images (files w) (MAX_PIC cfg)))"
proof -
  let ?ts = "strftime_path aligned"
  let ?cells = "grid_cells (nat (ND cfg))"
  let ?before = "takeWhile (\<lambda>c. \<not> cell_fails net cfg ?ts c) ?cells"
  let ?rest = "tl (dropWhile (\<lambda>c. \<not> cell_fails net cfg ?ts c) ?cells)"
  let ?pruned = "clean_old_images (files w) (MAX_PIC cfg)"
  let ?w1 = "w\<lparr>files := ?pruned\<rparr>"
  let ?err = "RuntimeError
           (''Failed to download tile ('' @ show_nat col @ '','' @ show_nat row
              @ '') from all URLs'')
           (if tile_urls cfg ?ts row col = [] then None
            else raised (net (last (tile_urls cfg ?ts row col))))"
  from find_first_split [OF assms(2)]
  have split: "?cells = ?before @ (row, col) # ?rest"
    and fails: "cell_fails net cfg ?ts (row, col)" by simp_all
  have ok: "\<forall>cell \<in> set ?before. \<not> cell_fails net cfg ?ts cell"
    using set_takeWhileD by fastforce
  from download_cells_first_failure [OF ok fails, of ?rest ?w1] obtain w' where
    c: "download_cells net cfg ?ts (?before @ (row, col) # ?rest) ?w1 = (w', Some ?err)"
    and q: "requests w' = requests ?w1
          @ concat (map (cell_requests net cfg ?ts) (?before @ [(row, col)]))"
    and p: "wallpaper w' = wallpaper ?w1"
    and f1: "set (files ?w1) \<subseteq> set (files w')"
    and f2: "set (files w') \<subseteq> set (files ?w1)
          \<union> (\<lambda>(r, c). tile_name r c) ` set (?before @ [(row, col)])"
    by blast
  from c split have c': "download_cells net cfg ?ts ?cells ?w1 = (w', Some ?err)" by simp
  have d: "download_tiles net cfg ?ts ?w1 = (w', Inl ?err)"
  proof (rule prod_eqI)
    show "fst (download_tiles net cfg ?ts ?w1) = fst (w', Inl ?err)"
      using download_tiles_cells [of net cfg ?ts ?w1] c' by simp
    have "failure (snd (download_tiles net cfg ?ts ?w1)) = Some ?err"
      using download_tiles_cells [of net cfg ?ts ?w1] c' by simp
    then show "snd (download_tiles net cfg ?ts ?w1) = snd (w', Inl ?err)"
      using failure_Some by fastforce
  qed
  have m: "main net LANCZOS cfg now1 now2 w = (w', Inl ?err)"
    unfolding main_def Let_def by (simp add: assms(1) d)
  have q': "requests w' = requests w
          @ concat (map (cell_requests net cfg ?ts) ?before) @ tile_urls cfg ?ts row col"
    using q cell_requests_failed [OF fails] by simp
  have p': "wallpaper w' = wallpaper w" using p by simp
  have f1': "set ?pruned \<subseteq> set (files w')" using f1 by simp
  have f2': "set (files w') \<subseteq> set ?pruned
          \<union> (\<lambda>(r, c). tile_name r c) ` set (?before @ [(row, col)])" using f2 by simp
  have a: "\<forall>nd sz dt. artifact_name nd sz dt \<in> set (files w')
          \<longrightarrow> artifact_name nd sz dt \<in> set ?pruned"
  proof (intro allI impI)
    fix nd sz dt
    assume "artifact_name nd sz dt \<in> set (files w')"
    with f2' have "artifact_name nd sz dt \<in> set ?pruned
        \<or> artifact_name nd sz dt
            \<in> (\<lambda>(r, c). tile_name r c) ` set (?before @ [(row, col)])" by blast
    then show "artifact_name nd sz dt \<in> set ?pruned"
    proof
      assume "artifact_name nd sz dt
            \<in> (\<lambda>(r, c). tile_name r c) ` set (?before @ [(row, col)])"
      then obtain cell where "artifact_name nd sz dt = (\<lambda>(r, c). tile_name r c) cell"
        by blast
      then have "artifact_name nd sz dt = tile_name (fst cell) (snd cell)"
        by (simp add: case_prod_beta)
      then show ?thesis using artifact_not_tile by blast
    qed
  qed
  from m q' p' f1' f2' a show ?thesis by blast
qed

lemma demo_aligned:
  "get_aligned_time new_year_0005 (DELAY_MINUTES demo_cfg) (UPDATE_INTERVAL_MINUTES demo_cfg)
     = Inr \<lparr>year = 2023, month = 12, day = 31, hour = 23, minute = 40, second = 0,
            microsecond = 0\<rparr>"
  by (simp add: demo_cfg_def get_aligned_time_new_year)

lemma demo_time_str:
  "strftime_path \<lparr>year = 2023, month = 12, day = 31, hour = 23, minute = 40, second = 0,
     microsecond = 0\<rparr> = ''2023/12/31/234000''"
  by (simp add: strftime_path_def pad0_def show_int_def show_nat.simps digit_char_def)

lemma demo_grid: "grid_cells (nat (ND demo_cfg)) = [(0, 0), (0, 1), (1, 0), (1, 1)]"
  by (simp add: demo_cfg_def grid_cells_2 [simplified] numeral_2_eq_2 [symmetric])

lemma demo_urls_00:
  "tile_urls demo_cfg ''2023/12/31/234000'' 0 0 =
     [''A/2d/550/2023/12/31/234000_0_0.png'', ''B/2d/550/2023/12/31/234000_0_0.png'']"
  by (simp add: tile_urls_def demo_cfg_def show_int_def show_nat.simps digit_char_def)

lemma demo_urls_01:
  "tile_urls demo_cfg ''2023/12/31/234000'' 0 1 =
     [''A/2d/550/2023/12/31/234000_1_0.png'', ''B/2d/550/2023/12/31/234000_1_0.png'']"
  by (simp add: tile_urls_def demo_cfg_def show_int_def show_nat.simps digit_char_def)

lemma demo_cell_00: "\<not> cell_fails net_one_cell_down demo_cfg ''2023/12/31/234000'' (0, 0)"
  unfolding cell_fails_def prod.case demo_urls_00
  by (simp add: net_one_cell_down_def succeeded_def)

lemma demo_cell_01: "cell_fails net_one_cell_down demo_cfg ''2023/12/31/234000'' (0, 1)"
  unfolding cell_fails_def prod.case demo_urls_01
  by (simp add: net_one_cell_down_def succeeded_def)

lemma demo_requests_00:
  "cell_requests net_one_cell_down demo_cfg ''2023/12/31/234000'' (0, 0)
     = [''A/2d/550/2023/12/31/234000_0_0.png'']"
  unfolding cell_requests_def prod.case demo_urls_00
  by (simp add: net_one_cell_down_def succeeded_def)

theorem main_aborts_on_failed_cell_witness:
  "\<forall>LANCZOS. \<exists>w'.
      main net_one_cell_down LANCZOS demo_cfg new_year_0005 new_year_0005 demo_world =
        (w', Inl (RuntimeError ''Failed to download tile (1,0) from all URLs''
                    (Some (IOError ''timeout''))))
      \<and> requests w' = [''A/2d/550/2023/12/31/234000_0_0.png'',
                         ''A/2d/550/2023/12/31/234000_1_0.png'',
                         ''B/2d/550/2023/12/31/234000_1_0.png'']
      \<and> wallpaper w' = []
      \<and> set [''readme.txt'', ''4d_550_2024__01__15__122000.png'',
               ''4d_550_2024__01__15__123000.png''] \<subseteq> set (files w')
      \<and> set (files w') \<subseteq> set [''readme.txt'', ''4d_550_2024__01__15__122000.png'',
               ''4d_550_2024__01__15__123000.png''] \<union> {''tile_0_0.png'', ''tile_0_1.png''}
      \<and> artifact_name 2 550 \<lparr>year = 2023, month = 12, day = 31, hour = 23, minute = 40,
            second = 0, microsecond = 0\<rparr> \<notin> set (files w')"
proof
  fix LANCZOS :: "image \<Rightarrow> nat \<times> nat \<Rightarrow> nat \<Rightarrow> nat \<Rightarrow> rgb"
  let ?al = "\<lparr>year = 2023, month = 12, day = 31, hour = 23, minute = 40, second = 0,
     microsecond = 0\<rparr>"
  have fnd: "find (cell_fails net_one_cell_down demo_cfg (strftime_path ?al))
      (grid_cells (nat (ND demo_cfg))) = Some (0, 1)"
    unfolding demo_time_str demo_grid using demo_cell_00 demo_cell_01 by simp
  have tw: "takeWhile (\<lambda>c. \<not> cell_fails net_one_cell_down demo_cfg ''2023/12/31/234000'' c)
      [(0, 0), (0, 1), (1, 0), (1, 1)] = [(0, 0)]"
    using demo_cell_00 demo_cell_01 by simp
  have pr: "clean_old_images (files demo_world) (MAX_PIC demo_cfg) =
     [''readme.txt'', ''4d_550_2024__01__15__122000.png'', ''4d_550_2024__01__15__123000.png'']"
    by (simp add: demo_world_def demo_cfg_def mixed_dir_clean)
  have tn: "tile_name 0 0 = ''tile_0_0.png''" "tile_name 0 1 = ''tile_0_1.png''"
    by (simp_all add: tile_name_def show_nat.simps digit_char_def)
  have sn: "show_nat 0 = ''0''" "show_nat 1 = ''1''"
    by (simp_all add: show_nat.simps digit_char_def)
  have ra: "raised (net_one_cell_down ''B/2d/550/2023/12/31/234000_1_0.png'')
      = Some (IOError ''timeout'')"
    by (simp add: raised_def net_one_cell_down_def)
  have an: "artifact_name 2 550 ?al = ''2d_550_2023__12__31__234000.png''"
    by (simp add: artifact_name_def show_int_def show_nat.simps digit_char_def convert_time_def
        strftime_path_def pad0_def)
  from main_aborts_on_failed_cell [OF demo_aligned fnd, of LANCZOS new_year_0005 demo_world,
      unfolded demo_time_str demo_grid tw pr demo_urls_01]
  obtain w' where
    m: "main net_one_cell_down LANCZOS demo_cfg new_year_0005 new_year_0005 demo_world =
        (w', Inl (RuntimeError
           (''Failed to download tile ('' @ show_nat 1 @ '','' @ show_nat 0
              @ '') from all URLs'')
           (if [''A/2d/550/2023/12/31/234000_1_0.png'', ''B/2d/550/2023/12/31/234000_1_0.png'']
               = [] then None
            else raised (net_one_cell_down
                   (last [''A/2d/550/2023/12/31/234000_1_0.png'',
                          ''B/2d/550/2023/12/31/234000_1_0.png''])))))"
    and q: "requests w' = requests demo_world
          @ concat (map (cell_requests net_one_cell_down demo_cfg ''2023/12/31/234000'')
                      [(0, 0)])
          @ [''A/2d/550/2023/12/31/234000_1_0.png'', ''B/2d/550/2023/12/31/234000_1_0.png'']"
    and p: "wallpaper w' = wallpaper demo_world"
    and f1: "set [''readme.txt'', ''4d_550_2024__01__15__122000.png'',
               ''4d_550_2024__01__15__123000.png''] \<subseteq> set (files w')"
    and f2: "set (files w') \<subseteq> set [''readme.txt'', ''4d_550_2024__01__15__122000.png'',
               ''4d_550_2024__01__15__123000.png'']
          \<union> (\<lambda>(r, c). tile_name r c) ` set ([(0, 0)] @ [(0, 1)])"
    and a: "\<forall>nd sz dt. artifact_name nd sz dt \<in> set (files w')
          \<longrightarrow> artifact_name nd sz dt \<in> set [''readme.txt'', ''4d_550_2024__01__15__122000.png'',
               ''4d_550_2024__01__15__123000.png'']"
    by (elim exE conjE) (rule that)
  have m': "main net_one_cell_down LANCZOS demo_cfg new_year_0005 new_year_0005 demo_world =
        (w', Inl (RuntimeError ''Failed to download tile (1,0) from all URLs''
                    (Some (IOError ''timeout''))))"
    unfolding m sn by (simp add: ra)
  have q': "requests w' = [''A/2d/550/2023/12/31/234000_0_0.png'',
                         ''A/2d/550/2023/12/31/234000_1_0.png'',
                         ''B/2d/550/2023/12/31/234000_1_0.png'']"
    unfolding q by (simp add: demo_requests_00 demo_world_def)
  have p': "wallpaper w' = []" unfolding p by (simp add: demo_world_def)
  have img: "(\<lambda>(r, c). tile_name r c) ` set ([(0, 0)] @ [(0, 1)])
      = {''tile_0_0.png'', ''tile_0_1.png''}"
    using tn by simp
  have f2': "set (files w') \<subseteq> set [''readme.txt'', ''4d_550_2024__01__15__122000.png'',
               ''4d_550_2024__01__15__123000.png''] \<union> {''tile_0_0.png'', ''tile_0_1.png''}"
    using f2 unfolding img .
  have a': "artifact_name 2 550 ?al \<notin> set (files w')"
  proof
    assume "artifact_name 2 550 ?al \<in> set (files w')"
    then have "artifact_name 2 550 ?al \<in> set [''readme.txt'',
        ''4d_550_2024__01__15__122000.png'', ''4d_550_2024__01__15__123000.png'']"
      by (rule a [rule_format])
    then show False unfolding an by simp
  qed
  from m' q' p' f1 f2' a' show "\<exists>w'.
      main net_one_cell_down LANCZOS demo_cfg new_year_0005 new_year_0005 demo_world =
        (w', Inl (RuntimeError ''Failed to download tile (1,0) from all URLs''
                    (Some (IOError ''timeout''))))
      \<and> requests w' = [''A/2d/550/2023/12/31/234000_0_0.png'',
                         ''A/2d/550/2023/12/31/234000_1_0.png'',
                         ''B/2d/550/2023/12/31/234000_1_0.png'']
      \<and> wallpaper w' = []
      \<and> set [''readme.txt'', ''4d_550_2024__01__15__122000.png'',
               ''4d_550_2024__01__15__123000.png''] \<subseteq> set (files w')
      \<and> set (files w') \<subseteq> set [''readme.txt'', ''4d_550_2024__01__15__122000.png'',
               ''4d_550_2024__01__15__123000.png''] \<union> {''tile_0_0.png'', ''tile_0_1.png''}
      \<and> artifact_name 2 550 ?al \<notin> set (files w')"
    by (intro exI [of _ w'] conjI)
qed

end
